theory Spec2Isabelle
  imports Complex_Main
begin

section \<open>Data model of the client's queues\<close>

text \<open>
  The development embeds \<^verbatim>\<open>faaskeeper/queue.py\<close>: the work queue, the event queue
  with its watch registry, the response listener's handling of one connection and one iteration
  of the sorter thread. Every method is a function from the object's state to an
  outcome and the state afterwards; a raised exception is the outcome \<open>Inl e\<close>.
  The model is sequential: one method runs at a time, and a blocking \<^verbatim>\<open>get\<close> that
  times out on an empty queue is the outcome \<open>None\<close>.
\<close>

datatype exn =
    SessionClosingException
  | TimeoutException real
  | ProviderException string
  | AssertionError
  | IndexError
  | KeyError
  | ValueError
  | AttributeError
  | JSONDecodeError

text \<open>
  Operations and futures are objects of modules outside this file; only their identity
  matters here, so each is a number naming the object.
\<close>

datatype Operation = Operation nat
datatype Future = Future nat

text \<open>The values found in a decoded JSON message: strings and integers.\<close>

datatype jvalue = JStr string | JInt int

type_synonym reply = "(string \<times> jvalue) list"

text \<open>Python's \<^verbatim>\<open>d[key]\<close> on a dict: a missing key raises KeyError.\<close>

definition getitem :: "reply \<Rightarrow> string \<Rightarrow> exn + jvalue" where
  "getitem d k = (case map_of d k of None \<Rightarrow> Inl KeyError | Some v \<Rightarrow> Inr v)"

text \<open>
  Modelled from the spec: the classes of \<^verbatim>\<open>faaskeeper.watch\<close> and \<^verbatim>\<open>faaskeeper.node\<close>
  are not part of the sources at hand. A watch has a watch type, a logical timestamp
  and a callback (here the number \<open>callback\<close> naming it); the event types are
  \<open>NODE_DATA_CHANGED\<close> and others, told apart by a number; a node snapshot has a path,
  \<^verbatim>\<open>modified.system.sum\<close> and \<^verbatim>\<open>modified.epoch.version\<close>.
\<close>

datatype WatchType = GET_DATA | EXISTS | GET_CHILDREN

datatype WatchEventType = NODE_DATA_CHANGED | OtherEventType nat

record Watch =
  watch_type :: WatchType
  timestamp :: int
  callback :: nat

datatype WatchedEvent = WatchedEvent WatchEventType string jvalue

record Node =
  node_path :: string
  system_sum :: int
  epoch_version :: "string list"

text \<open>The result of a direct read: a node, an exception object, or \<^verbatim>\<open>None\<close>.\<close>

datatype result_value = ResNode Node | ResException exn | ResNone

datatype event =
    CLOUD_INDIRECT_RESULT reply
  | CLOUD_DIRECT_RESULT int result_value Future
  | CLOUD_EXPECTED_RESULT int Operation Future
  | WATCH_NOTIFICATION Watch WatchedEvent

datatype log_entry = IgnoringUnknownWatchNotification WatchEventType string

subsection \<open>WorkQueue\<close>

record WorkQueue =
  wq_queue :: "(int \<times> Operation \<times> Future) list"
  wq_closing :: bool
  wq_request_count :: int

definition WorkQueue_init :: WorkQueue where
  "WorkQueue_init = \<lparr>wq_queue = [], wq_closing = False, wq_request_count = 0\<rparr>"

definition add_request :: "WorkQueue \<Rightarrow> Operation \<Rightarrow> Future \<Rightarrow> (exn + unit) \<times> WorkQueue" where
  "add_request q op fut =
     (if wq_closing q then (Inl SessionClosingException, q)
      else (Inr (),
            q\<lparr>wq_queue := wq_queue q @ [(wq_request_count q, op, fut)],
              wq_request_count := wq_request_count q + 1\<rparr>))"

definition WorkQueue_get ::
  "WorkQueue \<Rightarrow> (exn + (int \<times> Operation \<times> Future) option) \<times> WorkQueue" where
  "WorkQueue_get q =
     (case wq_queue q of
        [] \<Rightarrow> (Inr None, q)
      | x # xs \<Rightarrow> (Inr (Some x), q\<lparr>wq_queue := xs\<rparr>))"

definition WorkQueue_close :: "WorkQueue \<Rightarrow> WorkQueue" where
  "WorkQueue_close q = q\<lparr>wq_closing := True\<rparr>"


text \<open>A consumer calling \<^verbatim>\<open>get\<close> \<open>n\<close> times, collecting what each call returns.\<close>

fun WorkQueue_gets ::
  "nat \<Rightarrow> WorkQueue \<Rightarrow> (exn + (int \<times> Operation \<times> Future) option) list \<times> WorkQueue" where
  "WorkQueue_gets 0 q = ([], q)"
| "WorkQueue_gets (Suc n) q =
     (let (r, q') = WorkQueue_get q; (rs, q'') = WorkQueue_gets n q' in (r # rs, q''))"

subsection \<open>EventQueue and its watch registry\<close>

record EventQueue =
  eq_queue :: "event list"
  eq_watches :: "string \<rightharpoonup> Watch list"
  eq_closing :: bool
  eq_log :: "log_entry list"

definition EventQueue_init :: EventQueue where
  "EventQueue_init = \<lparr>eq_queue = [], eq_watches = Map.empty, eq_closing = False, eq_log = []\<rparr>"

definition put :: "EventQueue \<Rightarrow> event \<Rightarrow> EventQueue" where
  "put q e = q\<lparr>eq_queue := eq_queue q @ [e]\<rparr>"

definition add_expected_result ::
  "EventQueue \<Rightarrow> int \<Rightarrow> Operation \<Rightarrow> Future \<Rightarrow> (exn + unit) \<times> EventQueue" where
  "add_expected_result q request_id request future =
     (if eq_closing q then (Inl SessionClosingException, q)
      else (Inr (), put q (CLOUD_EXPECTED_RESULT request_id request future)))"

definition add_direct_result ::
  "EventQueue \<Rightarrow> int \<Rightarrow> result_value \<Rightarrow> Future \<Rightarrow> (exn + unit) \<times> EventQueue" where
  "add_direct_result q request_id result future =
     (if eq_closing q then (Inl SessionClosingException, q)
      else (Inr (), put q (CLOUD_DIRECT_RESULT request_id result future)))"

definition add_indirect_result :: "EventQueue \<Rightarrow> reply \<Rightarrow> (exn + unit) \<times> EventQueue" where
  "add_indirect_result q result =
     (if eq_closing q then (Inl SessionClosingException, q)
      else (Inr (), put q (CLOUD_INDIRECT_RESULT result)))"

definition EventQueue_get :: "EventQueue \<Rightarrow> (exn + event option) \<times> EventQueue" where
  "EventQueue_get q =
     (case eq_queue q of
        [] \<Rightarrow> (Inr None, q)
      | x # xs \<Rightarrow> (Inr (Some x), q\<lparr>eq_queue := xs\<rparr>))"

definition EventQueue_close :: "EventQueue \<Rightarrow> EventQueue" where
  "EventQueue_close q = q\<lparr>eq_closing := True\<rparr>"

fun EventQueue_gets :: "nat \<Rightarrow> EventQueue \<Rightarrow> (exn + event option) list \<times> EventQueue" where
  "EventQueue_gets 0 q = ([], q)"
| "EventQueue_gets (Suc n) q =
     (let (r, q') = EventQueue_get q; (rs, q'') = EventQueue_gets n q' in (r # rs, q''))"


text \<open>
  \<^verbatim>\<open>add_watch_notification\<close>. The parameter \<open>h\<close> is
  \<^verbatim>\<open>hashlib.md5(path.encode()).hexdigest()\<close>, a library function, and \<open>wet\<close> is
  the lookup \<^verbatim>\<open>WatchEventType(value)\<close> of the enumeration by value (\<open>None\<close> when no
  member has the value, where Python raises ValueError).

  \<open>scan_watches\<close> is the loop over \<^verbatim>\<open>enumerate(existing_watches)\<close>: \<open>None\<close> when the
  loop runs to its end, \<open>Some None\<close> when it returns without enqueuing, and
  \<open>Some (Some (w, idx))\<close> when it enqueues the watch \<open>w\<close> and deletes index \<open>idx\<close>.
\<close>

fun scan_watches :: "WatchEventType \<Rightarrow> nat \<Rightarrow> Watch list \<Rightarrow> (Watch \<times> nat) option option" where
  "scan_watches watch_event idx [] = None"
| "scan_watches watch_event idx (w # ws) =
     (if watch_event = NODE_DATA_CHANGED then
        (if watch_type w = GET_DATA then Some (Some (w, idx)) else Some None)
      else scan_watches watch_event (Suc idx) ws)"

definition del_index :: "'a list \<Rightarrow> nat \<Rightarrow> 'a list" where
  "del_index xs idx = take idx xs @ drop (Suc idx) xs"

definition warn :: "EventQueue \<Rightarrow> log_entry \<Rightarrow> EventQueue" where
  "warn q m = q\<lparr>eq_log := eq_log q @ [m]\<rparr>"

definition notify_watches ::
  "EventQueue \<Rightarrow> string \<Rightarrow> WatchEventType \<Rightarrow> string \<Rightarrow> jvalue \<Rightarrow> EventQueue" where
  "notify_watches q hashed_path watch_event path ts =
     (case eq_watches q hashed_path of
        None \<Rightarrow> warn q (IgnoringUnknownWatchNotification watch_event path)
      | Some existing_watches \<Rightarrow>
          if existing_watches = [] then
            warn q (IgnoringUnknownWatchNotification watch_event path)
          else
            (case scan_watches watch_event 0 existing_watches of
               None \<Rightarrow> warn q (IgnoringUnknownWatchNotification watch_event path)
             | Some None \<Rightarrow> q
             | Some (Some (w, idx)) \<Rightarrow>
                 (put q (WATCH_NOTIFICATION w (WatchedEvent watch_event path ts)))
                   \<lparr>eq_watches := (eq_watches q)(hashed_path \<mapsto> del_index existing_watches idx)\<rparr>))"

definition add_watch_notification ::
  "(string \<Rightarrow> string) \<Rightarrow> (int \<Rightarrow> WatchEventType option) \<Rightarrow> EventQueue \<Rightarrow> reply
     \<Rightarrow> (exn + unit) \<times> EventQueue" where
  "add_watch_notification h wet q result =
     (if eq_closing q then (Inl SessionClosingException, q)
      else
        (case getitem result ''path'' of
           Inl e \<Rightarrow> (Inl e, q)
         | Inr p \<Rightarrow>
        (case getitem result ''watch-event'' of
           Inl e \<Rightarrow> (Inl e, q)
         | Inr v \<Rightarrow>
        (case (case v of JInt n \<Rightarrow> wet n | JStr _ \<Rightarrow> None) of
           None \<Rightarrow> (Inl ValueError, q)
         | Some watch_event \<Rightarrow>
        (case getitem result ''timestamp'' of
           Inl e \<Rightarrow> (Inl e, q)
         | Inr ts \<Rightarrow>
        (case p of
           JInt _ \<Rightarrow> (Inl AttributeError, q)
         | JStr path \<Rightarrow> (Inr (), notify_watches q (h path) watch_event path ts)))))))"

text \<open>\<^verbatim>\<open>add_watch\<close>: \<open>same_type_index\<close> is the loop looking for a watch of the same type.\<close>

fun same_type_index :: "WatchType \<Rightarrow> nat \<Rightarrow> Watch list \<Rightarrow> nat option" where
  "same_type_index t idx [] = None"
| "same_type_index t idx (w # ws) =
     (if watch_type w = t then Some idx else same_type_index t (Suc idx) ws)"

definition add_watch ::
  "(string \<Rightarrow> string) \<Rightarrow> EventQueue \<Rightarrow> string \<Rightarrow> Watch \<Rightarrow> (exn + unit) \<times> EventQueue" where
  "add_watch h q path watch =
     (if eq_closing q then (Inl SessionClosingException, q)
      else
        (let hashed_path = h path in
         case eq_watches q hashed_path of
           None \<Rightarrow> (Inr (), q\<lparr>eq_watches := (eq_watches q)(hashed_path \<mapsto> [watch])\<rparr>)
         | Some existing_watches \<Rightarrow>
             if existing_watches = [] then
               (Inr (), q\<lparr>eq_watches := (eq_watches q)(hashed_path \<mapsto> [watch])\<rparr>)
             else
               (case same_type_index (watch_type watch) 0 existing_watches of
                  Some idx \<Rightarrow>
                    (Inr (), q\<lparr>eq_watches :=
                      (eq_watches q)(hashed_path \<mapsto> existing_watches[idx := watch])\<rparr>)
                | None \<Rightarrow>
                    (Inr (), q\<lparr>eq_watches :=
                      (eq_watches q)(hashed_path \<mapsto> existing_watches @ [watch])\<rparr>))))"

text \<open>
  \<^verbatim>\<open>get_watches\<close>: the loop over \<open>paths\<close> threads the registry and the list of watches
  collected so far; \<^verbatim>\<open>self._watches.get(p, [])\<close> is \<open>bucket\<close>.
\<close>

definition bucket :: "(string \<rightharpoonup> Watch list) \<Rightarrow> string \<Rightarrow> Watch list" where
  "bucket reg p = (case reg p of None \<Rightarrow> [] | Some ws \<Rightarrow> ws)"

fun get_watches_loop ::
  "string list \<Rightarrow> int \<Rightarrow> (string \<rightharpoonup> Watch list) \<Rightarrow> Watch list
     \<Rightarrow> Watch list \<times> (string \<rightharpoonup> Watch list)" where
  "get_watches_loop [] ts reg watches = (watches, reg)"
| "get_watches_loop (p # ps) ts reg watches =
     (let existing_watches = bucket reg p;
          matched = filter (\<lambda>w. timestamp w < ts) existing_watches;
          watches_removed = length matched
      in get_watches_loop ps ts
           (if watches_removed = length existing_watches then reg(p := None) else reg)
           (watches @ matched))"

definition get_watches ::
  "EventQueue \<Rightarrow> string list \<Rightarrow> int \<Rightarrow> (exn + Watch list) \<times> EventQueue" where
  "get_watches q paths ts =
     (if eq_closing q then (Inl SessionClosingException, q)
      else
        (let (watches, reg) = get_watches_loop paths ts (eq_watches q) []
         in (Inr watches, q\<lparr>eq_watches := reg\<rparr>)))"

subsection \<open>Python's string functions used by the sorter\<close>

text \<open>
  \<^verbatim>\<open>s.split(sep)\<close> for a separator of one character: the pieces between the
  separators, empty pieces included; the result always has at least one piece.
\<close>

fun split :: "string \<Rightarrow> char \<Rightarrow> string list" where
  "split [] sep = [[]]"
| "split (c # cs) sep =
     (if c = sep then [] # split cs sep
      else (case split cs sep of
              [] \<Rightarrow> [[c]]
            | piece # pieces \<Rightarrow> (c # piece) # pieces))"

text \<open>
  \<^verbatim>\<open>int(s)\<close> on a string of ASCII characters: surrounding whitespace (the codes 9
  to 13 and 32, and no other) is dropped, one sign is allowed, then decimal digits, where
  a single underscore may stand between two digits. \<open>None\<close> is Python's ValueError.
  Digits and spaces outside ASCII, which Python accepts as well, and the interpreter's
  limit on the number of digits are not covered.
\<close>

definition is_space :: "char \<Rightarrow> bool" where
  "is_space c = (let n = (of_char c :: nat) in (9 \<le> n \<and> n \<le> 13) \<or> n = 32)"

definition is_digit :: "char \<Rightarrow> bool" where
  "is_digit c = (let n = (of_char c :: nat) in 48 \<le> n \<and> n \<le> 57)"

definition digit_value :: "char \<Rightarrow> nat" where
  "digit_value c = of_char c - 48"

fun py_digits :: "nat \<Rightarrow> string \<Rightarrow> nat option" where
  "py_digits acc [] = Some acc"
| "py_digits acc [c] = (if is_digit c then Some (acc * 10 + digit_value c) else None)"
| "py_digits acc (c # d # cs) =
     (if is_digit c then py_digits (acc * 10 + digit_value c) (d # cs)
      else if c = CHR ''_'' \<and> is_digit d then py_digits (acc * 10 + digit_value d) cs
      else None)"

definition py_nat :: "string \<Rightarrow> nat option" where
  "py_nat s =
     (case s of
        [] \<Rightarrow> None
      | c # cs \<Rightarrow> if is_digit c then py_digits (digit_value c) cs else None)"

definition strip :: "string \<Rightarrow> string" where
  "strip s = rev (dropWhile is_space (rev (dropWhile is_space s)))"

definition py_int :: "string \<Rightarrow> int option" where
  "py_int s =
     (case strip s of
        [] \<Rightarrow> None
      | c # cs \<Rightarrow>
          if c = CHR ''+'' then map_option int (py_nat cs)
          else if c = CHR ''-'' then map_option (\<lambda>n. - int n) (py_nat cs)
          else map_option int (py_nat (c # cs)))"

subsection \<open>ResponseListener: one accepted connection\<close>

text \<open>
  \<^verbatim>\<open>conn.recv(bufsize)\<close> returns at most \<open>bufsize\<close> bytes of what the peer sent; how
  many of them have arrived when the call returns is the network's choice, here the
  parameter \<open>arrived\<close>. \<open>listener_recv\<close> is the call \<^verbatim>\<open>conn.recv(1024)\<close> of
  \<^verbatim>\<open>ResponseListener.run\<close>, made once per accepted connection.
\<close>

definition recv :: "nat \<Rightarrow> nat \<Rightarrow> 'a list \<Rightarrow> 'a list" where
  "recv bufsize arrived sent = take (min bufsize arrived) sent"

definition listener_recv :: "nat \<Rightarrow> 'a list \<Rightarrow> 'a list" where
  "listener_recv arrived sent = recv 1024 arrived sent"

text \<open>
  The body of the loop of \<^verbatim>\<open>ResponseListener.run\<close> for one accepted connection:
  \<^verbatim>\<open>data = json.loads(conn.recv(1024).decode())\<close>, then the routing on
  \<^verbatim>\<open>"watch-event" in data\<close>. The parameter \<open>loads\<close> is \<^verbatim>\<open>decode\<close> followed by
  \<^verbatim>\<open>json.loads\<close>, library functions: the decoded object, or the exception raised. No
  exception is caught here, so the outcome \<open>Inl e\<close> leaves the loop and ends the thread.
  Documents that decode to a value other than an object are not covered.
\<close>

definition listener_handle ::
  "(string \<Rightarrow> exn + reply) \<Rightarrow> (string \<Rightarrow> string) \<Rightarrow> (int \<Rightarrow> WatchEventType option)
     \<Rightarrow> EventQueue \<Rightarrow> nat \<Rightarrow> string \<Rightarrow> (exn + unit) \<times> EventQueue" where
  "listener_handle loads h wet q arrived sent =
     (case loads (listener_recv arrived sent) of
        Inl e \<Rightarrow> (Inl e, q)
      | Inr data \<Rightarrow>
          if map_of data ''watch-event'' \<noteq> None then add_watch_notification h wet q data
          else add_indirect_result q data)"

subsection \<open>SorterThread\<close>

text \<open>
  The sorter owns the list \<open>futures\<close> of pending entries
  \<^verbatim>\<open>(request_id, request, future, timestamp)\<close> and reads the event queue. Its calls on
  futures, operations and watches, objects of other modules, are recorded in the order
  they are made in \<open>effects\<close>. Wall-clock timestamps are real numbers.
\<close>

type_synonym pending = "int \<times> Operation \<times> Future \<times> real"

datatype effect =
    SetResult Future result_value
  | SetException Future exn
  | ProcessResult Operation reply Future
  | GenerateMessage Watch WatchedEvent

record Sorter =
  s_queue :: EventQueue
  futures :: "pending list"
  effects :: "effect list"

definition Sorter_init :: "EventQueue \<Rightarrow> Sorter" where
  "Sorter_init q = \<lparr>s_queue = q, futures = [], effects = []\<rparr>"

text \<open>
  The loop of \<^verbatim>\<open>_check_timeout\<close>: \<open>cur\<close> is \<^verbatim>\<open>cur_timestamp\<close>, \<open>i\<close> the loop index,
  \<open>futs\<close> the list as mutated so far (\<^verbatim>\<open>futures.pop(0)\<close> is \<open>tl\<close>) and \<open>effs\<close> the calls
  made so far.
\<close>

function check_timeout_loop ::
  "real \<Rightarrow> nat \<Rightarrow> pending list \<Rightarrow> effect list \<Rightarrow> pending list \<times> effect list" where
  "check_timeout_loop cur i futs effs =
     (if i < length futs then
        (case futs ! i of (request_id, request, fut, fut_timestamp) \<Rightarrow>
           if cur - fut_timestamp \<ge> 5.0 then
             check_timeout_loop cur (i + 1) (tl futs)
               (effs @ [SetException fut (TimeoutException 5.0)])
           else (futs, effs))
      else (futs, effs))"
  by pat_completeness auto
termination
  by (relation "measure (\<lambda>(cur, i, futs, effs). length futs - i)") auto

definition check_timeout :: "real \<Rightarrow> Sorter \<Rightarrow> Sorter" where
  "check_timeout cur s =
     (let (futs, effs) = check_timeout_loop cur 0 (futures s) (effects s)
      in s\<lparr>futures := futs, effects := effs\<rparr>)"

text \<open>
  The branch for \<^verbatim>\<open>CLOUD_INDIRECT_RESULT\<close>. \<open>local_idx\<close> is
  \<^verbatim>\<open>int(result["event"].split("-")[1])\<close>. The outcome \<open>Some e\<close> is an exception that
  leaves the loop of \<^verbatim>\<open>run\<close> and ends the thread.
\<close>

definition local_idx :: "reply \<Rightarrow> exn + int" where
  "local_idx result =
     (case getitem result ''event'' of
        Inl e \<Rightarrow> Inl e
      | Inr (JInt _) \<Rightarrow> Inl AttributeError
      | Inr (JStr ev) \<Rightarrow>
          (case split ev CHR ''-'' of
             _ # piece # _ \<Rightarrow>
               (case py_int piece of None \<Rightarrow> Inl ValueError | Some n \<Rightarrow> Inr n)
           | _ \<Rightarrow> Inl IndexError))"

definition indirect_result :: "Sorter \<Rightarrow> reply \<Rightarrow> exn option \<times> Sorter" where
  "indirect_result s result =
     (case local_idx result of
        Inl e \<Rightarrow> (Some e, s)
      | Inr req_id \<Rightarrow>
          (case futures s of
             [] \<Rightarrow> (Some IndexError, s)
           | (request_id, request, future, ts) # rest \<Rightarrow>
               if request_id = req_id then
                 (None, s\<lparr>futures := rest,
                          effects := effects s @ [ProcessResult request result future]\<rparr>)
               else (Some AssertionError, s)))"

text \<open>The branch for \<^verbatim>\<open>CLOUD_DIRECT_RESULT\<close>; \<open>h\<close> is the MD5 hex digest as above.\<close>

definition complete_future :: "Sorter \<Rightarrow> result_value \<Rightarrow> Future \<Rightarrow> Sorter" where
  "complete_future s result future =
     (case result of
        ResException e \<Rightarrow> s\<lparr>effects := effects s @ [SetException future e]\<rparr>
      | _ \<Rightarrow> s\<lparr>effects := effects s @ [SetResult future result]\<rparr>)"

definition epoch_paths :: "string list \<Rightarrow> string list" where
  "epoch_paths version = map (\<lambda>p. case split p CHR ''_'' of [] \<Rightarrow> [] | x # _ \<Rightarrow> x) version"

definition direct_result ::
  "(string \<Rightarrow> string) \<Rightarrow> Sorter \<Rightarrow> result_value \<Rightarrow> Future \<Rightarrow> exn option \<times> Sorter" where
  "direct_result h s result future =
     (case result of
        ResNode node \<Rightarrow>
          (let ts = system_sum node in
           case get_watches (s_queue s) [h (node_path node)] ts of
             (Inl e, q1) \<Rightarrow> (Some e, s\<lparr>s_queue := q1\<rparr>)
           | (Inr watches, q1) \<Rightarrow>
               (let s1 = s\<lparr>s_queue := q1,
                           effects := effects s @
                             map (\<lambda>w. GenerateMessage w
                                    (WatchedEvent NODE_DATA_CHANGED (node_path node) (JInt ts)))
                               watches\<rparr>
                in case get_watches q1 (epoch_paths (epoch_version node)) ts of
                     (Inl e, q2) \<Rightarrow> (Some e, s1\<lparr>s_queue := q2\<rparr>)
                   | (Inr watches2, q2) \<Rightarrow>
                       (None, complete_future (s1\<lparr>s_queue := q2\<rparr>) result future)))
      | _ \<Rightarrow> (None, complete_future s result future))"

text \<open>
  One iteration of the loop of \<^verbatim>\<open>run\<close>: \<open>t_append\<close> and \<open>t_check\<close> are the readings of
  \<^verbatim>\<open>datetime.now().timestamp()\<close> taken when an expected result is appended and when
  \<^verbatim>\<open>_check_timeout\<close> starts.
\<close>

definition sorter_iteration ::
  "(string \<Rightarrow> string) \<Rightarrow> real \<Rightarrow> real \<Rightarrow> Sorter \<Rightarrow> exn option \<times> Sorter" where
  "sorter_iteration h t_append t_check s =
     (case EventQueue_get (s_queue s) of
        (Inl e, q) \<Rightarrow> (Some e, s\<lparr>s_queue := q\<rparr>)
      | (Inr None, q) \<Rightarrow> (None, check_timeout t_check (s\<lparr>s_queue := q\<rparr>))
      | (Inr (Some submission), q) \<Rightarrow>
          (let s0 = s\<lparr>s_queue := q\<rparr> in
           case submission of
             CLOUD_EXPECTED_RESULT request_id request future \<Rightarrow>
               (None, check_timeout t_check
                        (s0\<lparr>futures := futures s0 @ [(request_id, request, future, t_append)]\<rparr>))
           | CLOUD_DIRECT_RESULT req_id result future \<Rightarrow> direct_result h s0 result future
           | CLOUD_INDIRECT_RESULT result \<Rightarrow> indirect_result s0 result
           | WATCH_NOTIFICATION watch ev \<Rightarrow>
               (None, check_timeout t_check
                        (s0\<lparr>effects := effects s0 @ [GenerateMessage watch ev]\<rparr>))))"

section \<open>Notions used to state the properties\<close>

text \<open>The watches of a bucket that are older than a timestamp, in the bucket's order.\<close>

definition matching :: "int \<Rightarrow> Watch list \<Rightarrow> Watch list" where
  "matching ts ws = filter (\<lambda>w. timestamp w < ts) ws"

text \<open>Sample watches for the concrete instances below.\<close>

definition watch_a :: Watch where "watch_a = \<lparr>watch_type = GET_DATA, timestamp = 5, callback = 1\<rparr>"
definition watch_b :: Watch where "watch_b = \<lparr>watch_type = EXISTS, timestamp = 15, callback = 2\<rparr>"
definition watch_c :: Watch where "watch_c = \<lparr>watch_type = GET_DATA, timestamp = 3, callback = 3\<rparr>"

text \<open>
  The registry holds at most one watch of each watch type in every bucket.
\<close>

definition registry_ok :: "(string \<rightharpoonup> Watch list) \<Rightarrow> bool" where
  "registry_ok reg = (\<forall>k. distinct (map watch_type (bucket reg k)))"

text \<open>
  The public methods of EventQueue as calls, and the queue after a sequence of calls
  (an exception raised by a call leaves the queue as the call left it).
\<close>

datatype call =
    AddExpectedResult int Operation Future
  | AddDirectResult int result_value Future
  | AddIndirectResult reply
  | AddWatchNotification reply
  | AddWatch string Watch
  | GetWatches "string list" int
  | Get
  | Close

definition do_call ::
  "(string \<Rightarrow> string) \<Rightarrow> (int \<Rightarrow> WatchEventType option) \<Rightarrow> EventQueue \<Rightarrow> call \<Rightarrow> EventQueue" where
  "do_call h wet q c =
     (case c of
        AddExpectedResult request_id request future \<Rightarrow>
          snd (add_expected_result q request_id request future)
      | AddDirectResult request_id result future \<Rightarrow>
          snd (add_direct_result q request_id result future)
      | AddIndirectResult result \<Rightarrow> snd (add_indirect_result q result)
      | AddWatchNotification result \<Rightarrow> snd (add_watch_notification h wet q result)
      | AddWatch path watch \<Rightarrow> snd (add_watch h q path watch)
      | GetWatches paths ts \<Rightarrow> snd (get_watches q paths ts)
      | Get \<Rightarrow> snd (EventQueue_get q)
      | Close \<Rightarrow> EventQueue_close q)"

fun run_calls ::
  "(string \<Rightarrow> string) \<Rightarrow> (int \<Rightarrow> WatchEventType option) \<Rightarrow> EventQueue \<Rightarrow> call list \<Rightarrow> EventQueue" where
  "run_calls h wet q [] = q"
| "run_calls h wet q (c # cs) = run_calls h wet (do_call h wet q c) cs"

text \<open>
  The MD5 hex digests of the two paths of the concrete instances below, for use as the
  parameter \<open>h\<close> there; no other path is hashed in them.
\<close>

definition md5_sample :: "string \<Rightarrow> string" where
  "md5_sample p =
     (if p = ''/x'' then ''cc8755609ad61864910f145119713de9''
      else if p = ''/y'' then ''a72df3f6810a09aca60c3e01d91312d5''
      else [])"

text \<open>The bucket after \<^verbatim>\<open>add_watch\<close> has stored a watch in it.\<close>

definition stored :: "Watch \<Rightarrow> Watch list \<Rightarrow> Watch list" where
  "stored w ws =
     (case same_type_index (watch_type w) 0 ws of
        Some idx \<Rightarrow> ws[idx := w]
      | None \<Rightarrow> ws @ [w])"


text \<open>
  The sorter handling a sequence of indirect replies one after the other; the first
  exception ends the run, as it ends the thread.
\<close>

fun indirect_results :: "Sorter \<Rightarrow> reply list \<Rightarrow> exn option \<times> Sorter" where
  "indirect_results s [] = (None, s)"
| "indirect_results s (result # results) =
     (case indirect_result s result of
        (Some e, s') \<Rightarrow> (Some e, s')
      | (None, s') \<Rightarrow> indirect_results s' results)"

text \<open>The call \<^verbatim>\<open>request.process_result(result, future)\<close> made for a pending entry.\<close>

definition processed :: "reply \<Rightarrow> pending \<Rightarrow> effect" where
  "processed result entry =
     (case entry of (request_id, request, future, ts) \<Rightarrow> ProcessResult request result future)"

text \<open>Two pending requests 0 and 1 of session \<open>S\<close>, and the replies to them.\<close>

definition reply_0 :: reply where "reply_0 = [(''event'', JStr ''S-0'')]"
definition reply_1 :: reply where "reply_1 = [(''event'', JStr ''S-1'')]"

definition two_pending :: Sorter where
  "two_pending =
     \<lparr>s_queue = EventQueue_init,
      futures = [(0, Operation 0, Future 0, 0), (1, Operation 1, Future 1, 0)],
      effects = []\<rparr>"


text \<open>
  Concrete states for the instances below. Three pending requests enqueued at time 0.
\<close>

definition three_expired :: Sorter where
  "three_expired =
     \<lparr>s_queue = EventQueue_init,
      futures = [(0, Operation 0, Future 0, 0), (1, Operation 1, Future 1, 0),
                 (2, Operation 2, Future 2, 0)],
      effects = []\<rparr>"

text \<open>
  A fresh queue after registering a watch on \<open>/x\<close> and one on \<open>/y\<close>, and two node
  snapshots of \<open>/x\<close> read at logical time 20 whose epoch names \<open>/y\<close>: by its path, and by
  the MD5 hex digest of its path.
\<close>

definition queue_xy :: EventQueue where
  "queue_xy =
     snd (add_watch md5_sample (snd (add_watch md5_sample EventQueue_init ''/x'' watch_a))
            ''/y'' watch_c)"

definition node_x :: Node where
  "node_x = \<lparr>node_path = ''/x'', system_sum = 20, epoch_version = [''/y_001'']\<rparr>"

definition node_x_hashed :: Node where
  "node_x_hashed =
     \<lparr>node_path = ''/x'', system_sum = 20,
      epoch_version = [''a72df3f6810a09aca60c3e01d91312d5_001'']\<rparr>"

text \<open>
  A fresh queue after registering a GET_DATA watch (timestamp 5) and an EXISTS watch
  (timestamp 15) on \<open>/x\<close>, and a snapshot of \<open>/x\<close> read at logical time 10.
\<close>

definition queue_partial :: EventQueue where
  "queue_partial =
     snd (add_watch md5_sample (snd (add_watch md5_sample EventQueue_init ''/x'' watch_a))
            ''/x'' watch_b)"

definition node_x_10 :: Node where
  "node_x_10 = \<lparr>node_path = ''/x'', system_sum = 10, epoch_version = []\<rparr>"

text \<open>
  A fresh queue after registering an EXISTS watch and then a GET_DATA watch on \<open>/x\<close>; a
  watch notification for \<open>/x\<close> carrying the event value \<open>v\<close>; and a value lookup of the
  event enumeration in which the value 1 is \<open>NODE_DATA_CHANGED\<close>.
\<close>

definition queue_exists_then_data :: EventQueue where
  "queue_exists_then_data =
     snd (add_watch md5_sample (snd (add_watch md5_sample EventQueue_init ''/x'' watch_b))
            ''/x'' watch_a)"

definition data_changed :: "int \<Rightarrow> reply" where
  "data_changed v = [(''path'', JStr ''/x''), (''watch-event'', JInt v), (''timestamp'', JInt 20)]"

definition wet_sample :: "int \<Rightarrow> WatchEventType option" where
  "wet_sample v = (if v = 1 then Some NODE_DATA_CHANGED else None)"

text \<open>
  Two messages of the reply socket, of 16 and of 1128 bytes, and the values of
  \<^verbatim>\<open>json.loads\<close> on the documents decoded in the instances below: the two messages decode
  to their objects, and the first 1024 bytes of the long one, which end inside a string,
  raise the decoder's error.
\<close>

definition short_message :: string where
  \<open>short_message = ''{"event": "S-0"}''\<close>

definition long_message :: string where
  \<open>long_message = ''{"event": "S-0", "data": "'' @ replicate 1100 (CHR ''a'') @ ''"}''\<close>

definition loads_sample :: "string \<Rightarrow> exn + reply" where
  "loads_sample s =
     (if s = short_message then Inr [(''event'', JStr ''S-0'')]
      else if s = long_message
        then Inr [(''event'', JStr ''S-0''), (''data'', JStr (replicate 1100 (CHR ''a'')))]
      else Inl JSONDecodeError)"


section \<open>Properties of the queues\<close>


lemma WorkQueue_gets_all:
  "fst (WorkQueue_gets (length (wq_queue q)) q) = map (\<lambda>x. Inr (Some x)) (wq_queue q)"
proof (induction "wq_queue q" arbitrary: q)
  case Nil
  then show ?case by simp
next
  case (Cons x xs)
  from Cons.hyps(2) have g: "WorkQueue_get q = (Inr (Some x), q\<lparr>wq_queue := xs\<rparr>)"
    by (simp add: WorkQueue_get_def Cons.hyps(2) [symmetric])
  have "xs = wq_queue (q\<lparr>wq_queue := xs\<rparr>)" by simp
  from Cons.hyps(1) [OF this] show ?case
    using Cons.hyps(2) [symmetric] g by (simp add: split_beta)
qed

lemma EventQueue_gets_all:
  "fst (EventQueue_gets (length (eq_queue q)) q) = map (\<lambda>x. Inr (Some x)) (eq_queue q)"
proof (induction "eq_queue q" arbitrary: q)
  case Nil
  then show ?case by simp
next
  case (Cons x xs)
  from Cons.hyps(2) have g: "EventQueue_get q = (Inr (Some x), q\<lparr>eq_queue := xs\<rparr>)"
    by (simp add: EventQueue_get_def Cons.hyps(2) [symmetric])
  have "xs = eq_queue (q\<lparr>eq_queue := xs\<rparr>)" by simp
  from Cons.hyps(1) [OF this] show ?case
    using Cons.hyps(2) [symmetric] g by (simp add: split_beta)
qed


text \<open>
  Claim C10. \<^verbatim>\<open>get\<close> of either queue never raises; \<^verbatim>\<open>close\<close> leaves the queued items
  as they are, and after \<^verbatim>\<open>close\<close> the \<^verbatim>\<open>get\<close> calls still return every queued item
  in FIFO order.
\<close>

theorem close_keeps_items:
  "fst (EventQueue_get q) \<noteq> Inl e
   \<and> fst (WorkQueue_get w) \<noteq> Inl e
   \<and> eq_queue (EventQueue_close q) = eq_queue q
   \<and> wq_queue (WorkQueue_close w) = wq_queue w
   \<and> fst (EventQueue_gets (length (eq_queue q)) (EventQueue_close q)) =
       map (\<lambda>x. Inr (Some x)) (eq_queue q)
   \<and> fst (WorkQueue_gets (length (wq_queue w)) (WorkQueue_close w)) =
       map (\<lambda>x. Inr (Some x)) (wq_queue w)"
proof -
  have a: "fst (EventQueue_get q) \<noteq> Inl e"
    by (simp add: EventQueue_get_def split: list.splits)
  have b: "fst (WorkQueue_get w) \<noteq> Inl e"
    by (simp add: WorkQueue_get_def split: list.splits)
  have c: "eq_queue (EventQueue_close q) = eq_queue q"
    by (simp add: EventQueue_close_def)
  have d: "wq_queue (WorkQueue_close w) = wq_queue w"
    by (simp add: WorkQueue_close_def)
  have e: "fst (EventQueue_gets (length (eq_queue q)) (EventQueue_close q)) =
       map (\<lambda>x. Inr (Some x)) (eq_queue q)"
    using EventQueue_gets_all [of "EventQueue_close q"] by (simp add: c)
  have f: "fst (WorkQueue_gets (length (wq_queue w)) (WorkQueue_close w)) =
       map (\<lambda>x. Inr (Some x)) (wq_queue w)"
    using WorkQueue_gets_all [of "WorkQueue_close w"] by (simp add: d)
  show ?thesis using a b c d e f by simp
qed

text \<open>
  Claim C7. Once a queue is closing (which \<^verbatim>\<open>close\<close> establishes), \<^verbatim>\<open>add_request\<close>,
  \<^verbatim>\<open>add_expected_result\<close>, \<^verbatim>\<open>add_direct_result\<close>, \<^verbatim>\<open>add_indirect_result\<close>,
  \<^verbatim>\<open>add_watch_notification\<close> and \<^verbatim>\<open>add_watch\<close> each raise SessionClosingException
  and leave the queue, the watch registry included, as it was.
\<close>

theorem closed_queue_rejects:
  assumes "wq_closing w" and "eq_closing q"
  shows "add_request w op fut = (Inl SessionClosingException, w)
     \<and> add_expected_result q request_id request future = (Inl SessionClosingException, q)
     \<and> add_direct_result q request_id result future = (Inl SessionClosingException, q)
     \<and> add_indirect_result q rep = (Inl SessionClosingException, q)
     \<and> add_watch_notification h wet q rep = (Inl SessionClosingException, q)
     \<and> add_watch h q p watch = (Inl SessionClosingException, q)
     \<and> wq_closing (WorkQueue_close w0) \<and> eq_closing (EventQueue_close q0)"
  using assms
  by (simp add: add_request_def add_expected_result_def add_direct_result_def
      add_indirect_result_def add_watch_notification_def add_watch_def
      WorkQueue_close_def EventQueue_close_def)

text \<open>The hypotheses of C7 hold after \<^verbatim>\<open>close\<close> on fresh queues.\<close>

theorem closed_queue_rejects_witness:
  "add_request (WorkQueue_close WorkQueue_init) (Operation 0) (Future 0) =
     (Inl SessionClosingException, WorkQueue_close WorkQueue_init)
   \<and> add_expected_result (EventQueue_close EventQueue_init) 0 (Operation 0) (Future 0) =
     (Inl SessionClosingException, EventQueue_close EventQueue_init)
   \<and> add_watch (\<lambda>p. p) (EventQueue_close EventQueue_init) ''/x''
       \<lparr>watch_type = GET_DATA, timestamp = 10, callback = 0\<rparr> =
     (Inl SessionClosingException, EventQueue_close EventQueue_init)"
proof -
  have w: "wq_closing (WorkQueue_close WorkQueue_init)"
    by (simp add: WorkQueue_close_def)
  have q: "eq_closing (EventQueue_close EventQueue_init)"
    by (simp add: EventQueue_close_def)
  show ?thesis
    using closed_queue_rejects [OF w q, of "Operation 0" "Future 0" 0 "Operation 0" "Future 0"
        ResNone "[]" "\<lambda>p. p" "\<lambda>n. None" "''/x''"
        "\<lparr>watch_type = GET_DATA, timestamp = 10, callback = 0\<rparr>"]
    by simp
qed

subsection \<open>The watch registry: \<^verbatim>\<open>get_watches\<close>\<close>

lemma length_filter_all: "(length (filter P xs) = length xs) = (\<forall>x\<in>set xs. P x)"
proof
  assume l: "length (filter P xs) = length xs"
  show "\<forall>x\<in>set xs. P x"
  proof
    fix x assume "x \<in> set xs"
    show "P x"
    proof (rule ccontr)
      assume "\<not> P x"
      with \<open>x \<in> set xs\<close> have "length (filter P xs) < length xs"
        by (rule length_filter_less)
      with l show False by simp
    qed
  qed
next
  assume "\<forall>x\<in>set xs. P x"
  then have "filter P xs = xs" by (simp add: filter_id_conv)
  then show "length (filter P xs) = length xs" by simp
qed

lemma bucket_removed [simp]: "bucket (reg(p := None)) p = []"
  by (simp add: bucket_def)

lemma bucket_other [simp]: "k \<noteq> p \<Longrightarrow> bucket (reg(p := v)) k = bucket reg k"
  by (simp add: bucket_def)

lemma get_watches_loop_registry:
  "snd (get_watches_loop ps ts reg acc) k =
     (if k \<in> set ps \<and> (\<forall>w\<in>set (bucket reg k). timestamp w < ts) then None else reg k)"
proof (induction ps arbitrary: reg acc)
  case Nil
  then show ?case by simp
next
  case (Cons p ps)
  let ?all = "\<forall>w\<in>set (bucket reg p). timestamp w < ts"
  let ?acc = "acc @ filter (\<lambda>w. timestamp w < ts) (bucket reg p)"
  show ?case
  proof (cases ?all)
    case True
    then have step: "get_watches_loop (p # ps) ts reg acc =
        get_watches_loop ps ts (reg(p := None)) ?acc"
      by (simp add: Let_def length_filter_all)
    show ?thesis
    proof (cases "k = p")
      case True
      with \<open>?all\<close> show ?thesis
        unfolding step Cons.IH by (simp add: bucket_def)
    next
      case False
      then show ?thesis
        unfolding step Cons.IH by simp
    qed
  next
    case False
    then have "length (filter (\<lambda>w. timestamp w < ts) (bucket reg p)) \<noteq> length (bucket reg p)"
      by (simp only: length_filter_all) simp
    then have step: "get_watches_loop (p # ps) ts reg acc = get_watches_loop ps ts reg ?acc"
      by (simp add: Let_def)
    show ?thesis
    proof (cases "k = p")
      case True
      with \<open>\<not> ?all\<close> show ?thesis
        unfolding step Cons.IH by auto
    next
      case False
      then show ?thesis
        unfolding step Cons.IH by simp
    qed
  qed
qed

lemma get_watches_loop_set:
  "set (fst (get_watches_loop ps ts reg acc)) =
     set acc \<union> {w. \<exists>p\<in>set ps. w \<in> set (bucket reg p) \<and> timestamp w < ts}"
proof (induction ps arbitrary: reg acc)
  case Nil
  then show ?case by simp
next
  case (Cons p ps)
  define m where "m = filter (\<lambda>w. timestamp w < ts) (bucket reg p)"
  define reg' where "reg' = (if length m = length (bucket reg p) then reg(p := None) else reg)"
  have step: "get_watches_loop (p # ps) ts reg acc = get_watches_loop ps ts reg' (acc @ m)"
    by (simp add: Let_def m_def reg'_def)
  have m: "\<And>w. w \<in> set m \<longleftrightarrow> w \<in> set (bucket reg p) \<and> timestamp w < ts"
    by (simp add: m_def)
  have later: "\<And>k w. w \<in> set (bucket reg' k) \<Longrightarrow> w \<in> set (bucket reg k)"
  proof -
    fix k w assume a: "w \<in> set (bucket reg' k)"
    show "w \<in> set (bucket reg k)"
    proof (cases "k = p \<and> length m = length (bucket reg p)")
      case True
      with a show ?thesis by (simp add: reg'_def)
    next
      case False
      with a show ?thesis by (cases "k = p") (simp_all add: reg'_def split: if_splits)
    qed
  qed
  have kept: "\<And>k w. w \<in> set (bucket reg k) \<Longrightarrow> timestamp w < ts \<Longrightarrow>
      w \<in> set (bucket reg' k) \<or> w \<in> set m"
  proof -
    fix k w assume a: "w \<in> set (bucket reg k)" and t: "timestamp w < ts"
    show "w \<in> set (bucket reg' k) \<or> w \<in> set m"
    proof (cases "k = p")
      case True
      with a t show ?thesis by (simp add: m)
    next
      case False
      with a show ?thesis by (simp add: reg'_def)
    qed
  qed
  have "set (acc @ m) \<union> {w. \<exists>k\<in>set ps. w \<in> set (bucket reg' k) \<and> timestamp w < ts} =
        set acc \<union> {w. \<exists>k\<in>set (p # ps). w \<in> set (bucket reg k) \<and> timestamp w < ts}"
    (is "?L = ?R")
  proof (rule set_eqI)
    fix w
    show "w \<in> ?L \<longleftrightarrow> w \<in> ?R"
    proof
      assume "w \<in> ?L"
      then consider "w \<in> set acc" | "w \<in> set m"
        | k where "k \<in> set ps" "w \<in> set (bucket reg' k)" "timestamp w < ts"
        by auto
      then show "w \<in> ?R"
      proof cases
        case 1
        then show ?thesis by simp
      next
        case 2
        then have "w \<in> set (bucket reg p) \<and> timestamp w < ts" by (simp add: m)
        then show ?thesis by simp
      next
        case 3
        from later [OF 3(2)] 3(1) 3(3) show ?thesis by auto
      qed
    next
      assume "w \<in> ?R"
      then consider "w \<in> set acc"
        | k where "k \<in> set (p # ps)" "w \<in> set (bucket reg k)" "timestamp w < ts"
        by auto
      then show "w \<in> ?L"
      proof cases
        case 1
        then show ?thesis by simp
      next
        case 2
        from kept [OF 2(2) 2(3)] have d: "w \<in> set (bucket reg' k) \<or> w \<in> set m" .
        show ?thesis
        proof (cases "w \<in> set m")
          case True
          then show ?thesis by simp
        next
          case False
          with d have in': "w \<in> set (bucket reg' k)" by simp
          have "k \<noteq> p"
          proof
            assume "k = p"
            with 2 have "w \<in> set m" by (simp add: m)
            with False show False by simp
          qed
          with 2(1) have "k \<in> set ps" by simp
          with in' 2(3) show ?thesis by auto
        qed
      qed
    qed
  qed
  then show ?case unfolding step Cons.IH .
qed

lemma get_watches_loop_cong:
  "(\<And>k. k \<in> set ps \<Longrightarrow> reg1 k = reg2 k) \<Longrightarrow>
   fst (get_watches_loop ps ts reg1 acc) = fst (get_watches_loop ps ts reg2 acc)"
proof (induction ps arbitrary: reg1 reg2 acc)
  case Nil
  then show ?case by simp
next
  case (Cons p ps)
  have b: "bucket reg1 p = bucket reg2 p" using Cons.prems [of p] by (simp add: bucket_def)
  show ?case
    unfolding get_watches_loop.simps Let_def b
    by (rule Cons.IH) (simp add: Cons.prems)
qed

lemma get_watches_loop_distinct:
  "distinct ps \<Longrightarrow>
   fst (get_watches_loop ps ts reg acc) = acc @ concat (map (\<lambda>p. matching ts (bucket reg p)) ps)"
proof (induction ps arbitrary: reg acc)
  case Nil
  then show ?case by simp
next
  case (Cons p ps)
  from Cons.prems have d: "distinct ps" and n: "p \<notin> set ps" by simp_all
  let ?reg' = "if length (filter (\<lambda>w. timestamp w < ts) (bucket reg p)) = length (bucket reg p)
               then reg(p := None) else reg"
  have same: "fst (get_watches_loop ps ts ?reg' (acc @ matching ts (bucket reg p))) =
              fst (get_watches_loop ps ts reg (acc @ matching ts (bucket reg p)))"
    by (rule get_watches_loop_cong) (use n in auto)
  show ?case
    using same Cons.IH [OF d, of reg "acc @ matching ts (bucket reg p)"]
    by (simp add: Let_def matching_def)
qed

text \<open>
  Claim C5. A call of \<^verbatim>\<open>get_watches\<close> on a queue that is not closing returns exactly
  the watches registered under the given keys whose timestamp is strictly below the
  observed timestamp (for pairwise distinct keys: bucket by bucket, in the order of the
  keys); the registry afterwards has lost the bucket of every given key all of whose
  watches are older, and is unchanged at every other key, so that a bucket matched
  only in part keeps all its watches.
\<close>

theorem get_watches_returns_older:
  assumes "\<not> eq_closing q"
  shows "\<exists>ws reg. get_watches q paths ts = (Inr ws, q\<lparr>eq_watches := reg\<rparr>)
     \<and> set ws = {w. \<exists>p\<in>set paths. w \<in> set (bucket (eq_watches q) p) \<and> timestamp w < ts}
     \<and> (distinct paths \<longrightarrow>
          ws = concat (map (\<lambda>p. filter (\<lambda>w. timestamp w < ts) (bucket (eq_watches q) p)) paths))
     \<and> (\<forall>p. reg p =
          (if p \<in> set paths \<and> (\<forall>w\<in>set (bucket (eq_watches q) p). timestamp w < ts)
           then None else eq_watches q p))"
proof -
  obtain ws reg where l: "get_watches_loop paths ts (eq_watches q) [] = (ws, reg)"
    by (cases "get_watches_loop paths ts (eq_watches q) []")
  have g: "get_watches q paths ts = (Inr ws, q\<lparr>eq_watches := reg\<rparr>)"
    using assms l by (simp add: get_watches_def)
  have s: "set ws = {w. \<exists>p\<in>set paths. w \<in> set (bucket (eq_watches q) p) \<and> timestamp w < ts}"
    using get_watches_loop_set [of paths ts "eq_watches q" "[]"] l by simp
  have d: "distinct paths \<longrightarrow>
          ws = concat (map (\<lambda>p. filter (\<lambda>w. timestamp w < ts) (bucket (eq_watches q) p)) paths)"
    using get_watches_loop_distinct [of paths ts "eq_watches q" "[]"] l
    by (simp add: matching_def)
  have r: "\<forall>p. reg p =
          (if p \<in> set paths \<and> (\<forall>w\<in>set (bucket (eq_watches q) p). timestamp w < ts)
           then None else eq_watches q p)"
    using get_watches_loop_registry [of paths ts "eq_watches q" "[]"] l by simp
  from g s d r show ?thesis by blast
qed


text \<open>
  An instance of C5: bucket \<open>a\<close> is matched in part and stays, bucket \<open>b\<close> is matched
  in full and is removed.
\<close>

theorem get_watches_returns_older_witness:
  "\<not> eq_closing (EventQueue_init\<lparr>eq_watches := [''a'' \<mapsto> [watch_a, watch_b], ''b'' \<mapsto> [watch_c]]\<rparr>)
   \<and> fst (get_watches (EventQueue_init\<lparr>eq_watches := [''a'' \<mapsto> [watch_a, watch_b], ''b'' \<mapsto> [watch_c]]\<rparr>)
        [''a'', ''b''] 10) = Inr [watch_a, watch_c]
   \<and> eq_watches (snd (get_watches
        (EventQueue_init\<lparr>eq_watches := [''a'' \<mapsto> [watch_a, watch_b], ''b'' \<mapsto> [watch_c]]\<rparr>)
        [''a'', ''b''] 10)) ''a'' = Some [watch_a, watch_b]
   \<and> eq_watches (snd (get_watches
        (EventQueue_init\<lparr>eq_watches := [''a'' \<mapsto> [watch_a, watch_b], ''b'' \<mapsto> [watch_c]]\<rparr>)
        [''a'', ''b''] 10)) ''b'' = None"
proof -
  let ?q = "EventQueue_init\<lparr>eq_watches := [''a'' \<mapsto> [watch_a, watch_b], ''b'' \<mapsto> [watch_c]]\<rparr>"
  have o: "\<not> eq_closing ?q" by (simp add: EventQueue_init_def)
  from get_watches_returns_older [OF o, of "[''a'', ''b'']" 10]
  obtain ws reg where g: "get_watches ?q [''a'', ''b''] 10 = (Inr ws, ?q\<lparr>eq_watches := reg\<rparr>)"
    and d: "distinct [''a'', ''b''] \<longrightarrow>
          ws = concat (map (\<lambda>p. filter (\<lambda>w. timestamp w < 10) (bucket (eq_watches ?q) p)) [''a'', ''b''])"
    and r: "\<forall>p. reg p =
          (if p \<in> set [''a'', ''b''] \<and> (\<forall>w\<in>set (bucket (eq_watches ?q) p). timestamp w < 10)
           then None else eq_watches ?q p)"
    by blast
  from d have ws: "ws = [watch_a, watch_c]"
    by (simp add: bucket_def watch_a_def watch_b_def watch_c_def)
  from r have ra: "reg ''a'' = Some [watch_a, watch_b]"
    by (simp add: bucket_def watch_a_def watch_b_def watch_c_def)
  from r have rb: "reg ''b'' = None"
    by (simp add: bucket_def watch_a_def watch_b_def watch_c_def)
  show ?thesis using o g ws ra rb by simp
qed

subsection \<open>The watch registry: \<^verbatim>\<open>add_watch\<close>\<close>

lemma same_type_index_Suc:
  "same_type_index t (Suc idx) ws = map_option Suc (same_type_index t idx ws)"
  by (induction ws arbitrary: idx) simp_all

lemma same_type_index_Cons:
  "same_type_index t 0 (w # ws) =
     (if watch_type w = t then Some 0 else map_option Suc (same_type_index t 0 ws))"
  by (simp add: same_type_index_Suc)

lemma same_type_index_None:
  "(same_type_index t 0 ws = None) = (t \<notin> watch_type ` set ws)"
  by (induction ws) (auto simp: same_type_index_Cons simp del: same_type_index.simps(2))

lemma same_type_index_Some:
  "same_type_index t 0 ws = Some i \<Longrightarrow> i < length ws \<and> watch_type (ws ! i) = t"
proof (induction ws arbitrary: i)
  case Nil
  then show ?case by simp
next
  case (Cons w ws)
  show ?case
  proof (cases "watch_type w = t")
    case True
    with Cons.prems show ?thesis by (simp add: same_type_index_Cons del: same_type_index.simps(2))
  next
    case False
    with Cons.prems obtain j where j: "same_type_index t 0 ws = Some j" and i: "i = Suc j"
      by (auto simp: same_type_index_Cons simp del: same_type_index.simps(2))
    from Cons.IH [OF j] i show ?thesis by simp
  qed
qed

lemma same_type_index_update:
  "same_type_index t 0 ws = Some i \<Longrightarrow> watch_type w = t \<Longrightarrow>
   same_type_index t 0 (ws[i := w]) = Some i"
proof (induction ws arbitrary: i)
  case Nil
  then show ?case by simp
next
  case (Cons v ws)
  show ?case
  proof (cases "watch_type v = t")
    case True
    with Cons.prems show ?thesis by (simp add: same_type_index_Cons del: same_type_index.simps(2))
  next
    case False
    with Cons.prems obtain j where j: "same_type_index t 0 ws = Some j" and i: "i = Suc j"
      by (auto simp: same_type_index_Cons simp del: same_type_index.simps(2))
    from Cons.IH [OF j Cons.prems(2)] i False show ?thesis
      by (simp add: same_type_index_Cons del: same_type_index.simps(2))
  qed
qed

lemma same_type_index_append:
  "t \<notin> watch_type ` set ws \<Longrightarrow> watch_type w = t \<Longrightarrow>
   same_type_index t 0 (ws @ [w]) = Some (length ws)"
  by (induction ws) (auto simp: same_type_index_Cons simp del: same_type_index.simps(2))

lemma stored_types:
  assumes "distinct (map watch_type ws)"
  shows "distinct (map watch_type (stored w ws))"
proof (cases "same_type_index (watch_type w) 0 ws")
  case None
  then have "watch_type w \<notin> watch_type ` set ws" by (simp add: same_type_index_None)
  with assms None show ?thesis by (simp add: stored_def)
next
  case (Some i)
  from same_type_index_Some [OF Some] have i: "i < length ws" and t: "watch_type (ws ! i) = watch_type w"
    by simp_all
  have "map watch_type (ws[i := w]) = (map watch_type ws)[i := watch_type (ws ! i)]"
    by (simp add: map_update t)
  also have "\<dots> = map watch_type ws"
    using i by (simp add: nth_map [symmetric] del: nth_map)
  finally show ?thesis using assms Some by (simp add: stored_def)
qed

lemma stored_index:
  "\<exists>i. same_type_index (watch_type w) 0 (stored w ws) = Some i
     \<and> i < length (stored w ws) \<and> stored w ws ! i = w"
proof (cases "same_type_index (watch_type w) 0 ws")
  case None
  then have n: "watch_type w \<notin> watch_type ` set ws" by (simp add: same_type_index_None)
  have "same_type_index (watch_type w) 0 (ws @ [w]) = Some (length ws)"
    using n by (rule same_type_index_append) simp
  with None show ?thesis by (simp add: stored_def)
next
  case (Some i)
  from same_type_index_Some [OF Some] have i: "i < length ws" by simp
  have "same_type_index (watch_type w) 0 (ws[i := w]) = Some i"
    using Some by (rule same_type_index_update) simp
  with Some i show ?thesis by (simp add: stored_def)
qed

lemma filter_distinct_nth:
  "distinct (map f xs) \<Longrightarrow> i < length xs \<Longrightarrow> filter (\<lambda>x. f x = f (xs ! i)) xs = [xs ! i]"
proof (induction xs arbitrary: i)
  case Nil
  then show ?case by simp
next
  case (Cons x xs)
  from Cons.prems have nx: "f x \<notin> f ` set xs" and d: "distinct (map f xs)" by simp_all
  show ?case
  proof (cases i)
    case 0
    have "filter (\<lambda>y. f y = f x) xs = []"
      unfolding filter_empty_conv using nx by (metis imageI)
    with 0 show ?thesis by simp
  next
    case (Suc j)
    with Cons.prems have j: "j < length xs" by simp
    then have "xs ! j \<in> set xs" by simp
    with nx have "f x \<noteq> f (xs ! j)" by auto
    with Cons.IH [OF d j] Suc show ?thesis by simp
  qed
qed

lemma add_watch_open:
  "\<not> eq_closing q \<Longrightarrow>
   add_watch h q p w =
     (Inr (), q\<lparr>eq_watches := (eq_watches q)(h p \<mapsto> stored w (bucket (eq_watches q) (h p)))\<rparr>)"
  by (simp add: add_watch_def stored_def bucket_def Let_def split: option.splits)

lemma add_watch_closing:
  "eq_closing q \<Longrightarrow> add_watch h q p w = (Inl SessionClosingException, q)"
  by (simp add: add_watch_def)

lemma bucket_upd_same: "bucket (reg(k \<mapsto> ws)) k = ws"
  by (simp add: bucket_def)

lemma registry_ok_upd:
  "registry_ok reg \<Longrightarrow> distinct (map watch_type ws) \<Longrightarrow> registry_ok (reg(k \<mapsto> ws))"
  by (simp add: registry_ok_def bucket_def)

lemma registry_ok_bucket: "registry_ok reg \<Longrightarrow> distinct (map watch_type (bucket reg k))"
  by (simp add: registry_ok_def)

lemma add_watch_ok:
  "registry_ok (eq_watches q) \<Longrightarrow> registry_ok (eq_watches (snd (add_watch h q p w)))"
proof (cases "eq_closing q")
  case True
  assume "registry_ok (eq_watches q)"
  with True show ?thesis by (simp add: add_watch_closing)
next
  case False
  assume ok: "registry_ok (eq_watches q)"
  have "registry_ok ((eq_watches q)(h p \<mapsto> stored w (bucket (eq_watches q) (h p))))"
    using ok by (rule registry_ok_upd) (rule stored_types, rule registry_ok_bucket, rule ok)
  with False show ?thesis by (simp add: add_watch_open)
qed


lemma del_index_types:
  assumes "distinct (map f xs)"
  shows "distinct (map f (del_index xs i))"
proof -
  have m: "map f (del_index xs i) = take i (map f xs) @ drop (Suc i) (map f xs)"
    by (simp add: del_index_def take_map drop_map)
  have "set (take i (map f xs)) \<inter> set (drop (Suc i) (map f xs)) = {}"
    using assms by (rule set_take_disj_set_drop_if_distinct) simp
  with assms show ?thesis unfolding m by simp
qed

lemma bucket_Some: "reg k = Some ws \<Longrightarrow> bucket reg k = ws"
  by (simp add: bucket_def)

lemma notify_watches_ok:
  assumes ok: "registry_ok (eq_watches q)"
  shows "registry_ok (eq_watches (notify_watches q k ev p ts))"
proof (cases "eq_watches q k")
  case None
  with ok show ?thesis by (simp add: notify_watches_def warn_def)
next
  case (Some existing)
  from registry_ok_bucket [OF ok, of k] Some have d: "distinct (map watch_type existing)"
    by (simp add: bucket_def)
  show ?thesis
  proof (cases "scan_watches ev 0 existing")
    case None
    with Some ok show ?thesis by (simp add: notify_watches_def warn_def)
  next
    case outer: (Some r)
    show ?thesis
    proof (cases r)
      case None
      with outer Some ok show ?thesis by (simp add: notify_watches_def warn_def)
    next
      case inner: (Some wi)
      obtain w idx where wi: "wi = (w, idx)" by (cases wi)
      have "registry_ok ((eq_watches q)(k \<mapsto> del_index existing idx))"
        using ok by (rule registry_ok_upd) (rule del_index_types, rule d)
      with outer inner wi Some ok show ?thesis
        by (simp add: notify_watches_def warn_def put_def)
    qed
  qed
qed

lemma add_watch_notification_ok:
  assumes ok: "registry_ok (eq_watches q)"
  shows "registry_ok (eq_watches (snd (add_watch_notification h wet q r)))"
  using ok notify_watches_ok [OF ok]
  by (simp add: add_watch_notification_def split: sum.splits option.splits jvalue.splits)

lemma get_watches_ok:
  assumes ok: "registry_ok (eq_watches q)"
  shows "registry_ok (eq_watches (snd (get_watches q paths ts)))"
proof (cases "eq_closing q")
  case True
  with ok show ?thesis by (simp add: get_watches_def)
next
  case False
  obtain ws reg where l: "get_watches_loop paths ts (eq_watches q) [] = (ws, reg)"
    by (cases "get_watches_loop paths ts (eq_watches q) []")
  have r: "\<And>k. reg k = None \<or> reg k = eq_watches q k"
    using get_watches_loop_registry [of paths ts "eq_watches q" "[]"] l by simp
  have "\<And>k. distinct (map watch_type (bucket reg k))"
  proof -
    fix k
    from r [of k] show "distinct (map watch_type (bucket reg k))"
    proof
      assume "reg k = None"
      then show ?thesis by (simp add: bucket_def)
    next
      assume "reg k = eq_watches q k"
      then have "bucket reg k = bucket (eq_watches q) k" by (simp add: bucket_def)
      with registry_ok_bucket [OF ok, of k] show ?thesis by simp
    qed
  qed
  then have "registry_ok reg" by (simp add: registry_ok_def)
  with False l show ?thesis by (simp add: get_watches_def)
qed

lemma do_call_ok:
  assumes ok: "registry_ok (eq_watches q)"
  shows "registry_ok (eq_watches (do_call h wet q c))"
proof (cases c)
  case (AddExpectedResult i r f)
  with ok show ?thesis by (simp add: do_call_def add_expected_result_def put_def)
next
  case (AddDirectResult i r f)
  with ok show ?thesis by (simp add: do_call_def add_direct_result_def put_def)
next
  case (AddIndirectResult r)
  with ok show ?thesis by (simp add: do_call_def add_indirect_result_def put_def)
next
  case (AddWatchNotification r)
  with add_watch_notification_ok [OF ok] show ?thesis by (simp add: do_call_def)
next
  case (AddWatch p w)
  with add_watch_ok [OF ok] show ?thesis by (simp add: do_call_def)
next
  case (GetWatches ps ts)
  with get_watches_ok [OF ok] show ?thesis by (simp add: do_call_def)
next
  case Get
  with ok show ?thesis by (simp add: do_call_def EventQueue_get_def split: list.splits)
next
  case Close
  with ok show ?thesis by (simp add: do_call_def EventQueue_close_def)
qed

lemma run_calls_ok:
  "registry_ok (eq_watches q) \<Longrightarrow> registry_ok (eq_watches (run_calls h wet q cs))"
  by (induction cs arbitrary: q) (simp_all add: do_call_ok)

lemma registry_ok_init: "registry_ok (eq_watches EventQueue_init)"
  by (simp add: registry_ok_def EventQueue_init_def bucket_def)

text \<open>
  Claim C8. On a queue that is not closing and whose registry holds at most one watch
  per watch type in each bucket, registering \<open>w1\<close> and then \<open>w2\<close> of the same watch type
  for the same path succeeds twice, \<open>w2\<close> takes the very position \<open>w1\<close> had, and the
  bucket then holds exactly one watch of that type, \<open>w2\<close>; a watch whose type is not yet
  in the bucket is appended; the other buckets are untouched; and after any sequence
  of calls on a fresh EventQueue every bucket holds at most one watch per watch type.
\<close>

theorem add_watch_one_per_type:
  assumes "\<not> eq_closing q" and "registry_ok (eq_watches q)" and "watch_type w2 = watch_type w1"
  shows "fst (add_watch h q p w1) = Inr ()
     \<and> fst (add_watch h (snd (add_watch h q p w1)) p w2) = Inr ()
     \<and> (\<exists>i < length (bucket (eq_watches (snd (add_watch h q p w1))) (h p)).
           bucket (eq_watches (snd (add_watch h q p w1))) (h p) ! i = w1
         \<and> bucket (eq_watches (snd (add_watch h (snd (add_watch h q p w1)) p w2))) (h p) =
             (bucket (eq_watches (snd (add_watch h q p w1))) (h p))[i := w2])
     \<and> filter (\<lambda>w. watch_type w = watch_type w1)
          (bucket (eq_watches (snd (add_watch h (snd (add_watch h q p w1)) p w2))) (h p)) = [w2]
     \<and> (watch_type w3 \<notin> watch_type ` set (bucket (eq_watches q) (h p)) \<longrightarrow>
          bucket (eq_watches (snd (add_watch h q p w3))) (h p) =
            bucket (eq_watches q) (h p) @ [w3])
     \<and> (\<forall>k. k \<noteq> h p \<longrightarrow> eq_watches (snd (add_watch h q p w1)) k = eq_watches q k)
     \<and> registry_ok (eq_watches (run_calls h wet EventQueue_init cs))"
proof -
  let ?ws = "bucket (eq_watches q) (h p)"
  let ?ws1 = "stored w1 ?ws"
  let ?q1 = "q\<lparr>eq_watches := (eq_watches q)(h p \<mapsto> ?ws1)\<rparr>"
  let ?ws2 = "stored w2 ?ws1"
  let ?q2 = "?q1\<lparr>eq_watches := (eq_watches ?q1)(h p \<mapsto> ?ws2)\<rparr>"
  have a1: "add_watch h q p w1 = (Inr (), ?q1)"
    using assms(1) by (rule add_watch_open)
  have o1: "\<not> eq_closing ?q1" using assms(1) by simp
  have b1: "bucket (eq_watches ?q1) (h p) = ?ws1" by (simp add: bucket_def)
  have a2: "add_watch h ?q1 p w2 = (Inr (), ?q2)"
    using add_watch_open [OF o1, of h p w2] by (simp only: b1)
  have b2: "bucket (eq_watches ?q2) (h p) = ?ws2" by (simp add: bucket_def)
  from stored_index [of w1 ?ws] obtain i
    where i: "same_type_index (watch_type w1) 0 ?ws1 = Some i" "i < length ?ws1" "?ws1 ! i = w1"
    by blast
  have s2: "?ws2 = ?ws1[i := w2]"
    using i(1) assms(3) by (simp add: stored_def)
  have d1: "distinct (map watch_type ?ws1)"
    by (rule stored_types, rule registry_ok_bucket, rule assms(2))
  have d2: "distinct (map watch_type ?ws2)" using d1 by (rule stored_types)
  have n2: "i < length ?ws2" "?ws2 ! i = w2" using i(2) by (simp_all add: s2)
  have "filter (\<lambda>w. watch_type w = watch_type (?ws2 ! i)) ?ws2 = [?ws2 ! i]"
    using d2 n2(1) by (rule filter_distinct_nth)
  then have f: "filter (\<lambda>w. watch_type w = watch_type w1) ?ws2 = [w2]"
    by (simp only: n2(2) assms(3))
  have c3: "\<exists>i < length ?ws1. ?ws1 ! i = w1 \<and> ?ws2 = ?ws1[i := w2]"
    using i(2) i(3) s2 by blast
  have app: "watch_type w3 \<notin> watch_type ` set ?ws \<longrightarrow>
          bucket (eq_watches (snd (add_watch h q p w3))) (h p) = ?ws @ [w3]"
  proof
    assume "watch_type w3 \<notin> watch_type ` set ?ws"
    then have "same_type_index (watch_type w3) 0 ?ws = None"
      by (simp add: same_type_index_None)
    then have "stored w3 ?ws = ?ws @ [w3]" by (simp add: stored_def)
    then show "bucket (eq_watches (snd (add_watch h q p w3))) (h p) = ?ws @ [w3]"
      using add_watch_open [OF assms(1), of h p w3] by (simp add: bucket_def)
  qed
  have oth: "\<forall>k. k \<noteq> h p \<longrightarrow> eq_watches (snd (add_watch h q p w1)) k = eq_watches q k"
    by (simp add: a1)
  have inv: "registry_ok (eq_watches (run_calls h wet EventQueue_init cs))"
    using registry_ok_init by (rule run_calls_ok)
  show ?thesis
    unfolding a1 a2 snd_conv fst_conv b1 b2
    using c3 f app oth inv unfolding a1 snd_conv by blast
qed

text \<open>
  An instance of C8 on a fresh queue: a second GET_DATA watch replaces the first, and
  a watch on an empty bucket is appended.
\<close>

theorem add_watch_one_per_type_witness:
  "\<not> eq_closing EventQueue_init
   \<and> registry_ok (eq_watches EventQueue_init)
   \<and> watch_type watch_c = watch_type watch_a
   \<and> filter (\<lambda>w. watch_type w = watch_type watch_a)
        (bucket (eq_watches (snd (add_watch md5_sample
           (snd (add_watch md5_sample EventQueue_init ''/x'' watch_a)) ''/x'' watch_c)))
           (md5_sample ''/x'')) = [watch_c]
   \<and> bucket (eq_watches (snd (add_watch md5_sample EventQueue_init ''/x'' watch_b)))
        (md5_sample ''/x'') = [watch_b]"
proof -
  have h1: "\<not> eq_closing EventQueue_init" by (simp add: EventQueue_init_def)
  have h2: "registry_ok (eq_watches EventQueue_init)" by (rule registry_ok_init)
  have h3: "watch_type watch_c = watch_type watch_a" by (simp add: watch_a_def watch_c_def)
  have e: "bucket (eq_watches EventQueue_init) (md5_sample ''/x'') = []"
    by (simp add: EventQueue_init_def bucket_def)
  note t = add_watch_one_per_type [OF h1 h2 h3, of md5_sample "''/x''" watch_b "\<lambda>n. None" "[]"]
  from t have f: "filter (\<lambda>w. watch_type w = watch_type watch_a)
        (bucket (eq_watches (snd (add_watch md5_sample
           (snd (add_watch md5_sample EventQueue_init ''/x'' watch_a)) ''/x'' watch_c)))
           (md5_sample ''/x'')) = [watch_c]"
    by blast
  from t have "watch_type watch_b \<notin> watch_type ` set (bucket (eq_watches EventQueue_init) (md5_sample ''/x'')) \<longrightarrow>
      bucket (eq_watches (snd (add_watch md5_sample EventQueue_init ''/x'' watch_b)))
        (md5_sample ''/x'') = bucket (eq_watches EventQueue_init) (md5_sample ''/x'') @ [watch_b]"
    by blast
  then have a: "bucket (eq_watches (snd (add_watch md5_sample EventQueue_init ''/x'' watch_b)))
        (md5_sample ''/x'') = [watch_b]"
    by (simp add: e)
  from h1 h2 h3 f a show ?thesis by blast
qed

subsection \<open>The sorter: indirect results\<close>

lemma indirect_result_ok:
  "indirect_result s result = (None, s') \<Longrightarrow>
   \<exists>entry rest. futures s = entry # rest \<and> local_idx result = Inr (fst entry)
     \<and> s' = s\<lparr>futures := rest, effects := effects s @ [processed result entry]\<rparr>"
  by (auto simp: indirect_result_def processed_def split: sum.splits list.splits if_splits)

lemma indirect_result_raises:
  "indirect_result s result = (Some e, s') \<Longrightarrow>
   s' = s \<and>
   (case local_idx result of
      Inl e' \<Rightarrow> e = e'
    | Inr idx \<Rightarrow>
        (case futures s of
           [] \<Rightarrow> e = IndexError
         | entry # rest \<Rightarrow> fst entry \<noteq> idx \<and> e = AssertionError))"
  by (auto simp: indirect_result_def split: sum.splits list.splits if_splits)

lemma indirect_result_head:
  "local_idx result = Inr idx \<Longrightarrow> futures s = (request_id, request, future, ts) # rest \<Longrightarrow>
   indirect_result s result =
     (if request_id = idx
      then (None, s\<lparr>futures := rest, effects := effects s @ [ProcessResult request result future]\<rparr>)
      else (Some AssertionError, s))"
  by (simp add: indirect_result_def)

lemma sorter_iteration_indirect:
  "eq_queue (s_queue s) = CLOUD_INDIRECT_RESULT result # evs \<Longrightarrow>
   sorter_iteration h t_append t_check s =
     indirect_result (s\<lparr>s_queue := (s_queue s)\<lparr>eq_queue := evs\<rparr>\<rparr>) result"
  by (simp add: sorter_iteration_def EventQueue_get_def)

lemma indirect_results_run:
  "indirect_results s results = (r, s') \<Longrightarrow>
   \<exists>n \<le> length results. n \<le> length (futures s)
     \<and> futures s' = drop n (futures s)
     \<and> effects s' = effects s @ map2 processed (take n results) (take n (futures s))
     \<and> map local_idx (take n results) = map (\<lambda>entry. Inr (fst entry)) (take n (futures s))
     \<and> s_queue s' = s_queue s
     \<and> (r = None \<longrightarrow> n = length results)
     \<and> (\<forall>e. r = Some e \<longrightarrow> n < length results \<and> indirect_result s' (results ! n) = (Some e, s'))"
proof (induction results arbitrary: s)
  case Nil
  then show ?case by simp
next
  case (Cons result results)
  obtain r1 s1 where step: "indirect_result s result = (r1, s1)"
    by (cases "indirect_result s result")
  show ?case
  proof (cases r1)
    case (Some e)
    with step Cons.prems have r: "r = Some e" and s': "s' = s1" by simp_all
    from indirect_result_raises [OF step [unfolded Some]] have same: "s1 = s" by simp
    have "0 \<le> length (result # results) \<and> 0 \<le> length (futures s)
     \<and> futures s' = drop 0 (futures s)
     \<and> effects s' = effects s @ map2 processed (take 0 (result # results)) (take 0 (futures s))
     \<and> map local_idx (take 0 (result # results)) = map (\<lambda>entry. Inr (fst entry)) (take 0 (futures s))
     \<and> s_queue s' = s_queue s
     \<and> (r = None \<longrightarrow> 0 = length (result # results))
     \<and> (\<forall>e. r = Some e \<longrightarrow> 0 < length (result # results)
           \<and> indirect_result s' ((result # results) ! 0) = (Some e, s'))"
      using r s' same step Some by simp
    then show ?thesis by blast
  next
    case None
    with step Cons.prems have rest: "indirect_results s1 results = (r, s')" by simp
    from indirect_result_ok [OF step [unfolded None]] obtain entry tail
      where f: "futures s = entry # tail" and idx: "local_idx result = Inr (fst entry)"
        and s1: "s1 = s\<lparr>futures := tail, effects := effects s @ [processed result entry]\<rparr>"
      by blast
    from Cons.IH [OF rest] obtain n where n: "n \<le> length results" "n \<le> length (futures s1)"
      "futures s' = drop n (futures s1)"
      "effects s' = effects s1 @ map2 processed (take n results) (take n (futures s1))"
      "map local_idx (take n results) = map (\<lambda>entry. Inr (fst entry)) (take n (futures s1))"
      "s_queue s' = s_queue s1"
      "r = None \<longrightarrow> n = length results"
      "\<forall>e. r = Some e \<longrightarrow> n < length results \<and> indirect_result s' (results ! n) = (Some e, s')"
      by blast
    have "Suc n \<le> length (result # results) \<and> Suc n \<le> length (futures s)
     \<and> futures s' = drop (Suc n) (futures s)
     \<and> effects s' = effects s @ map2 processed (take (Suc n) (result # results)) (take (Suc n) (futures s))
     \<and> map local_idx (take (Suc n) (result # results)) =
         map (\<lambda>entry. Inr (fst entry)) (take (Suc n) (futures s))
     \<and> s_queue s' = s_queue s
     \<and> (r = None \<longrightarrow> Suc n = length (result # results))
     \<and> (\<forall>e. r = Some e \<longrightarrow> Suc n < length (result # results)
           \<and> indirect_result s' ((result # results) ! Suc n) = (Some e, s'))"
      using n f idx by (simp add: s1)
    then show ?thesis by blast
  qed
qed


text \<open>
  Claim C1. For a \<^verbatim>\<open>CLOUD_INDIRECT_RESULT\<close> whose local index parses to \<open>idx\<close> and a
  non-empty pending list, the sorter pops the head entry and calls its operation's
  \<^verbatim>\<open>process_result\<close> with the reply and the entry's future when the head's request id
  equals \<open>idx\<close>, and otherwise raises AssertionError with the state untouched; an
  iteration of \<^verbatim>\<open>run\<close> that dequeues such an event does exactly this; any exception of
  the branch leaves the pending list as it was; and a run over several replies
  processes the first \<open>n\<close> of them against the first \<open>n\<close> pending entries, in the order of
  the pending list, each reply's index equal to its entry's request id, and it stops at
  the first reply that raises.
\<close>

theorem indirect_result_fifo:
  "(local_idx result = Inr idx \<longrightarrow> futures s = (request_id, request, future, ts) # rest \<longrightarrow>
      indirect_result s result =
        (if request_id = idx
         then (None, s\<lparr>futures := rest,
                        effects := effects s @ [ProcessResult request result future]\<rparr>)
         else (Some AssertionError, s)))
   \<and> (eq_queue (s_queue s) = CLOUD_INDIRECT_RESULT result # evs \<longrightarrow>
        sorter_iteration h t_append t_check s =
          indirect_result (s\<lparr>s_queue := (s_queue s)\<lparr>eq_queue := evs\<rparr>\<rparr>) result)
   \<and> (indirect_result s result = (Some e, s') \<longrightarrow> s' = s)
   \<and> (indirect_results s results = (r, s'') \<longrightarrow>
        (\<exists>n \<le> length results. n \<le> length (futures s)
           \<and> futures s'' = drop n (futures s)
           \<and> effects s'' = effects s @ map2 processed (take n results) (take n (futures s))
           \<and> map local_idx (take n results) = map (\<lambda>entry. Inr (fst entry)) (take n (futures s))
           \<and> (r = None \<longrightarrow> n = length results)
           \<and> (\<forall>e. r = Some e \<longrightarrow>
                 n < length results \<and> indirect_result s'' (results ! n) = (Some e, s''))))"
proof (intro conjI impI)
  assume "local_idx result = Inr idx" and "futures s = (request_id, request, future, ts) # rest"
  then show "indirect_result s result =
        (if request_id = idx
         then (None, s\<lparr>futures := rest,
                        effects := effects s @ [ProcessResult request result future]\<rparr>)
         else (Some AssertionError, s))"
    by (rule indirect_result_head)
next
  assume "eq_queue (s_queue s) = CLOUD_INDIRECT_RESULT result # evs"
  then show "sorter_iteration h t_append t_check s =
          indirect_result (s\<lparr>s_queue := (s_queue s)\<lparr>eq_queue := evs\<rparr>\<rparr>) result"
    by (rule sorter_iteration_indirect)
next
  assume "indirect_result s result = (Some e, s')"
  from indirect_result_raises [OF this] show "s' = s" by simp
next
  assume "indirect_results s results = (r, s'')"
  from indirect_results_run [OF this]
  show "\<exists>n \<le> length results. n \<le> length (futures s)
           \<and> futures s'' = drop n (futures s)
           \<and> effects s'' = effects s @ map2 processed (take n results) (take n (futures s))
           \<and> map local_idx (take n results) = map (\<lambda>entry. Inr (fst entry)) (take n (futures s))
           \<and> (r = None \<longrightarrow> n = length results)
           \<and> (\<forall>e. r = Some e \<longrightarrow>
                 n < length results \<and> indirect_result s'' (results ! n) = (Some e, s''))"
    by blast
qed

text \<open>
  The separator characters 28 to 31 are not blanks for \<^verbatim>\<open>int\<close>: a local index that
  carries one raises ValueError.
\<close>

lemma local_idx_file_separator:
  "local_idx [(''event'', JStr (''S-'' @ [CHR 0x1C, CHR ''5'']))] = Inl ValueError"
  by (simp add: local_idx_def getitem_def py_int_def strip_def is_space_def
      is_digit_def digit_value_def py_nat_def)

lemma local_idx_reply_0: "local_idx reply_0 = Inr 0"
  by (simp add: reply_0_def local_idx_def getitem_def py_int_def strip_def is_space_def
      is_digit_def digit_value_def py_nat_def)

lemma local_idx_reply_1: "local_idx reply_1 = Inr 1"
  by (simp add: reply_1_def local_idx_def getitem_def py_int_def strip_def is_space_def
      is_digit_def digit_value_def py_nat_def)

text \<open>
  An instance of C1 with requests 0 and 1 pending: the reply \<open>S-1\<close> delivered first
  raises AssertionError and changes nothing; the replies \<open>S-0\<close>, \<open>S-1\<close> in order
  complete request 0, then request 1.
\<close>

theorem indirect_result_fifo_witness:
  "local_idx reply_1 = Inr 1
   \<and> futures two_pending = (0, Operation 0, Future 0, 0) # [(1, Operation 1, Future 1, 0)]
   \<and> indirect_result two_pending reply_1 = (Some AssertionError, two_pending)
   \<and> eq_queue (s_queue (two_pending\<lparr>s_queue := put EventQueue_init (CLOUD_INDIRECT_RESULT reply_1)\<rparr>))
       = CLOUD_INDIRECT_RESULT reply_1 # []
   \<and> sorter_iteration md5_sample 0 10
        (two_pending\<lparr>s_queue := put EventQueue_init (CLOUD_INDIRECT_RESULT reply_1)\<rparr>) =
       (Some AssertionError, two_pending)
   \<and> indirect_results two_pending [reply_0, reply_1] =
       (None, two_pending\<lparr>futures := [],
          effects := [ProcessResult (Operation 0) reply_0 (Future 0),
                      ProcessResult (Operation 1) reply_1 (Future 1)]\<rparr>)
   \<and> futures (two_pending\<lparr>futures := [],
          effects := [ProcessResult (Operation 0) reply_0 (Future 0),
                      ProcessResult (Operation 1) reply_1 (Future 1)]\<rparr>) =
       drop 2 (futures two_pending)"
proof -
  let ?s = "two_pending\<lparr>s_queue := put EventQueue_init (CLOUD_INDIRECT_RESULT reply_1)\<rparr>"
  let ?final = "two_pending\<lparr>futures := [],
          effects := [ProcessResult (Operation 0) reply_0 (Future 0),
                      ProcessResult (Operation 1) reply_1 (Future 1)]\<rparr>"
  have f: "futures two_pending = (0, Operation 0, Future 0, 0) # [(1, Operation 1, Future 1, 0)]"
    by (simp add: two_pending_def)
  have q: "eq_queue (s_queue ?s) = CLOUD_INDIRECT_RESULT reply_1 # []"
    by (simp add: put_def EventQueue_init_def)
  have restore: "?s\<lparr>s_queue := (s_queue ?s)\<lparr>eq_queue := []\<rparr>\<rparr> = two_pending"
    by (simp add: two_pending_def put_def EventQueue_init_def)
  have run: "indirect_results two_pending [reply_0, reply_1] = (None, ?final)"
    by (simp add: indirect_result_def local_idx_reply_0 local_idx_reply_1 two_pending_def)
  note t = indirect_result_fifo [of reply_1 1 two_pending 0 "Operation 0" "Future 0" 0
      "[(1, Operation 1, Future 1, 0)]" "[]" md5_sample 0 10 AssertionError two_pending
      "[reply_0, reply_1]" None ?final]
  from t local_idx_reply_1 f
  have mismatch: "indirect_result two_pending reply_1 = (Some AssertionError, two_pending)"
    by simp
  have d: "futures ?final = drop 2 (futures two_pending)"
    by (simp add: two_pending_def)
  have it: "sorter_iteration md5_sample 0 10 ?s = (Some AssertionError, two_pending)"
    using indirect_result_fifo [of reply_1 1 ?s 0 "Operation 0" "Future 0" 0
      "[(1, Operation 1, Future 1, 0)]" "[]" md5_sample 0 10 AssertionError two_pending
      "[]" None ?s] q
    by (simp only: restore mismatch simp_thms)
  from local_idx_reply_1 f mismatch q it run d show ?thesis by blast
qed

subsection \<open>The sorter: timeouts and direct results; the listener; watch notifications\<close>

text \<open>
  Claim C2, evaluated. With three pending entries that are all expired at time 10, one
  run of \<^verbatim>\<open>_check_timeout\<close> fails the futures 0 and 2 only and removes the entries 0 and
  1 only: the entry of request 1 leaves the list with its future never failed, and the
  entry of request 2 stays although its future was failed. The loop reads
  \<^verbatim>\<open>futures[i]\<close> but removes \<^verbatim>\<open>futures[0]\<close> and then advances \<open>i\<close>.
\<close>

theorem check_timeout_skips_entries:
  "futures (check_timeout 10 three_expired) = [(2, Operation 2, Future 2, 0)]
   \<and> effects (check_timeout 10 three_expired) =
       [SetException (Future 0) (TimeoutException 5.0),
        SetException (Future 2) (TimeoutException 5.0)]
   \<and> sorter_iteration md5_sample 10 10 three_expired = (None, check_timeout 10 three_expired)"
  by (simp add: check_timeout_def three_expired_def sorter_iteration_def EventQueue_get_def
      EventQueue_init_def)

lemma listener_recv_length:
  "length (listener_recv arrived sent) = min 1024 (min arrived (length sent))"
  by (auto simp: listener_recv_def recv_def min_def)

lemma listener_recv_prefix:
  "listener_recv arrived sent = take (min 1024 arrived) sent"
  by (simp add: listener_recv_def recv_def)

lemma listener_recv_take: "listener_recv arrived (take 1024 sent) = listener_recv arrived sent"
proof -
  have "min (min 1024 arrived) 1024 = min 1024 arrived" by (simp add: min_def)
  then show ?thesis by (simp add: listener_recv_def recv_def)
qed

text \<open>
  Claim C9, as amended. For one accepted connection the listener makes one \<^verbatim>\<open>recv\<close>,
  which reads a prefix of the message of at most 1024 bytes (the least of 1024, the
  bytes arrived and the length of the message), and passes exactly these bytes once to
  the decoder as a single JSON document: what lies beyond the first 1024 bytes of a
  message has no influence on the outcome. When the decoder raises, the exception
  leaves the listener with the queue unchanged; when it returns an object, the object
  goes to watch handling if it has the key \<open>watch-event\<close> and to indirect-result handling
  otherwise.
\<close>

theorem listener_decodes_first_1024:
  "length (listener_recv arrived sent) = min 1024 (min arrived (length sent))
   \<and> listener_recv arrived sent = take (length (listener_recv arrived sent)) sent
   \<and> listener_handle loads h wet q arrived sent =
       listener_handle loads h wet q arrived (take 1024 sent)
   \<and> (loads (take (min 1024 arrived) sent) = Inl e \<longrightarrow>
        listener_handle loads h wet q arrived sent = (Inl e, q))
   \<and> (loads (take (min 1024 arrived) sent) = Inr data \<longrightarrow>
        listener_handle loads h wet q arrived sent =
          (if map_of data ''watch-event'' \<noteq> None then add_watch_notification h wet q data
           else add_indirect_result q data))"
proof (intro conjI impI)
  show "length (listener_recv arrived sent) = min 1024 (min arrived (length sent))"
    by (rule listener_recv_length)
  show "listener_recv arrived sent = take (length (listener_recv arrived sent)) sent"
    by (auto simp: listener_recv_def recv_def min_def)
  show "listener_handle loads h wet q arrived sent =
       listener_handle loads h wet q arrived (take 1024 sent)"
    by (simp add: listener_handle_def listener_recv_take)
next
  assume "loads (take (min 1024 arrived) sent) = Inl e"
  then show "listener_handle loads h wet q arrived sent = (Inl e, q)"
    by (simp add: listener_handle_def listener_recv_prefix)
next
  assume "loads (take (min 1024 arrived) sent) = Inr data"
  then show "listener_handle loads h wet q arrived sent =
          (if map_of data ''watch-event'' \<noteq> None then add_watch_notification h wet q data
           else add_indirect_result q data)"
    by (simp add: listener_handle_def listener_recv_prefix)
qed

lemma length_long_message: "length long_message = 1128"
  by (simp add: long_message_def)

lemma length_short_message: "length short_message = 16"
  by (simp add: short_message_def)

lemma long_message_cut:
  "take 1024 long_message \<noteq> short_message \<and> take 1024 long_message \<noteq> long_message
   \<and> long_message \<noteq> short_message"
proof -
  have l: "length (take 1024 long_message) = 1024"
    by (simp add: length_long_message)
  have a: "take 1024 long_message \<noteq> short_message"
  proof
    assume "take 1024 long_message = short_message"
    then have "length (take 1024 long_message) = length short_message" by (rule arg_cong)
    then show False unfolding l length_short_message by simp
  qed
  have b: "take 1024 long_message \<noteq> long_message"
  proof
    assume "take 1024 long_message = long_message"
    then have "length (take 1024 long_message) = length long_message" by (rule arg_cong)
    then show False unfolding l length_long_message by simp
  qed
  have c: "long_message \<noteq> short_message"
  proof
    assume "long_message = short_message"
    then have "length long_message = length short_message" by (rule arg_cong)
    then show False unfolding length_short_message length_long_message by simp
  qed
  from a b c show ?thesis by blast
qed

lemma loads_sample_cut: "loads_sample (take (min 1024 1128) long_message) = Inl JSONDecodeError"
proof -
  have m: "min 1024 1128 = (1024::nat)" by simp
  from long_message_cut have n: "take 1024 long_message \<noteq> short_message"
    "take 1024 long_message \<noteq> long_message" by blast+
  show ?thesis unfolding m loads_sample_def by (simp only: n if_False)
qed

lemma loads_sample_short:
  "loads_sample (take (min 1024 16) short_message) = Inr [(''event'', JStr ''S-0'')]"
proof -
  have "take (min 1024 16) short_message = short_message"
    by (simp add: length_short_message)
  then show ?thesis unfolding loads_sample_def by (simp only: if_True simp_thms)
qed

text \<open>
  An instance of C9 as amended: of the message of 1128 bytes, arrived in full, the first
  1024 bytes are decoded, the decoder raises and nothing is enqueued, although the whole
  message is a JSON object; the message of 16 bytes is decoded and enqueued as an
  indirect result.
\<close>

theorem listener_decodes_first_1024_witness:
  "loads_sample (take (min 1024 1128) long_message) = Inl JSONDecodeError
   \<and> listener_handle loads_sample md5_sample wet_sample EventQueue_init 1128 long_message =
       (Inl JSONDecodeError, EventQueue_init)
   \<and> loads_sample long_message =
       Inr [(''event'', JStr ''S-0''), (''data'', JStr (replicate 1100 (CHR ''a'')))]
   \<and> loads_sample (take (min 1024 16) short_message) = Inr [(''event'', JStr ''S-0'')]
   \<and> listener_handle loads_sample md5_sample wet_sample EventQueue_init 16 short_message =
       (Inr (), put EventQueue_init (CLOUD_INDIRECT_RESULT [(''event'', JStr ''S-0'')]))"
proof -
  note t1 = listener_decodes_first_1024 [of 1128 long_message loads_sample md5_sample wet_sample
      EventQueue_init JSONDecodeError "[]"]
  from t1 loads_sample_cut
  have a: "listener_handle loads_sample md5_sample wet_sample EventQueue_init 1128 long_message =
       (Inl JSONDecodeError, EventQueue_init)"
    by blast
  from long_message_cut have ls: "long_message \<noteq> short_message" by blast
  have b: "loads_sample long_message =
       Inr [(''event'', JStr ''S-0''), (''data'', JStr (replicate 1100 (CHR ''a'')))]"
    unfolding loads_sample_def by (simp only: ls if_False if_True simp_thms)
  note t2 = listener_decodes_first_1024 [of 16 short_message loads_sample md5_sample wet_sample
      EventQueue_init JSONDecodeError "[(''event'', JStr ''S-0'')]"]
  from t2 loads_sample_short
  have "listener_handle loads_sample md5_sample wet_sample EventQueue_init 16 short_message =
          (if map_of [(''event'', JStr ''S-0'')] ''watch-event'' \<noteq> None
           then add_watch_notification md5_sample wet_sample EventQueue_init [(''event'', JStr ''S-0'')]
           else add_indirect_result EventQueue_init [(''event'', JStr ''S-0'')])"
    by blast
  then have c: "listener_handle loads_sample md5_sample wet_sample EventQueue_init 16 short_message =
       (Inr (), put EventQueue_init (CLOUD_INDIRECT_RESULT [(''event'', JStr ''S-0'')]))"
    by (simp add: add_indirect_result_def EventQueue_init_def)
  from loads_sample_cut a b loads_sample_short c show ?thesis by blast
qed

text \<open>
  The receive buffer does not hold 64 KiB: of a message of 65536 bytes that has arrived
  in full, fewer than 65536 bytes are read.
\<close>

theorem listener_recv_counterexample:
  "\<not> 65536 \<le> length (listener_recv 65536 (replicate 65536 (CHR ''a'')))"
  by (simp add: listener_recv_def recv_def)

lemma queue_xy_watches:
  "queue_xy = EventQueue_init\<lparr>eq_watches :=
      [''cc8755609ad61864910f145119713de9'' \<mapsto> [watch_a],
       ''a72df3f6810a09aca60c3e01d91312d5'' \<mapsto> [watch_c]]\<rparr>"
  by (simp add: queue_xy_def add_watch_def md5_sample_def EventQueue_init_def Let_def)

text \<open>
  The epoch of a node names \<open>/y\<close>, on which a watch older than the read is registered.
  Named by its path, the watch on \<open>/y\<close> is not found (the registry is keyed by digests),
  gets no message and stays registered; named by the digest of its path, the watch is
  fetched and leaves the registry, and still gets no message.
\<close>

lemma direct_result_epoch_watch_lost:
  "fst (direct_result md5_sample (Sorter_init queue_xy) (ResNode node_x) (Future 7)) = None
   \<and> effects (snd (direct_result md5_sample (Sorter_init queue_xy) (ResNode node_x) (Future 7))) =
       [GenerateMessage watch_a (WatchedEvent NODE_DATA_CHANGED ''/x'' (JInt 20)),
        SetResult (Future 7) (ResNode node_x)]
   \<and> eq_watches (s_queue (snd (direct_result md5_sample (Sorter_init queue_xy)
          (ResNode node_x) (Future 7)))) (md5_sample ''/y'') = Some [watch_c]
   \<and> effects (snd (direct_result md5_sample (Sorter_init queue_xy)
          (ResNode node_x_hashed) (Future 7))) =
       [GenerateMessage watch_a (WatchedEvent NODE_DATA_CHANGED ''/x'' (JInt 20)),
        SetResult (Future 7) (ResNode node_x_hashed)]
   \<and> eq_watches (s_queue (snd (direct_result md5_sample (Sorter_init queue_xy)
          (ResNode node_x_hashed) (Future 7)))) (md5_sample ''/y'') = None"
  by (simp add: direct_result_def queue_xy_watches Sorter_init_def get_watches_def
      EventQueue_init_def md5_sample_def node_x_def node_x_hashed_def epoch_paths_def
      bucket_def watch_a_def watch_c_def complete_future_def Let_def)


lemma get_watches_single:
  "\<not> eq_closing q \<Longrightarrow>
   \<exists>q'. get_watches q [p] ts = (Inr (filter (\<lambda>w. timestamp w < ts) (bucket (eq_watches q) p)), q')
     \<and> \<not> eq_closing q'"
  by (simp add: get_watches_def Let_def)

lemma get_watches_open:
  "\<not> eq_closing q \<Longrightarrow> \<exists>ws q'. get_watches q ps ts = (Inr ws, q') \<and> \<not> eq_closing q'"
  by (simp add: get_watches_def split_beta)

lemma direct_result_node_effects:
  assumes "\<not> eq_closing (s_queue s)"
  shows "fst (direct_result h s (ResNode node) future) = None
     \<and> effects (snd (direct_result h s (ResNode node) future)) =
         effects s @
         map (\<lambda>w. GenerateMessage w
                (WatchedEvent NODE_DATA_CHANGED (node_path node) (JInt (system_sum node))))
           (filter (\<lambda>w. timestamp w < system_sum node)
              (bucket (eq_watches (s_queue s)) (h (node_path node)))) @
         [SetResult future (ResNode node)]"
proof -
  from get_watches_single [OF assms, of "h (node_path node)" "system_sum node"]
  obtain q1 where g1: "get_watches (s_queue s) [h (node_path node)] (system_sum node) =
      (Inr (filter (\<lambda>w. timestamp w < system_sum node)
              (bucket (eq_watches (s_queue s)) (h (node_path node)))), q1)"
    and o1: "\<not> eq_closing q1" by blast
  from get_watches_open [OF o1, of "epoch_paths (epoch_version node)" "system_sum node"]
  obtain ws2 q2 where g2: "get_watches q1 (epoch_paths (epoch_version node)) (system_sum node) =
      (Inr ws2, q2)" by blast
  show ?thesis
    by (simp add: direct_result_def Let_def g1 g2 complete_future_def)
qed

text \<open>
  Claim C4, what the code does. For a \<open>NODE_DATA_CHANGED\<close> notification on a path whose
  bucket is not empty, \<^verbatim>\<open>add_watch_notification\<close> looks at the first watch of the bucket
  only: when it is a GET_DATA watch, the notification is enqueued with it and the watch
  is removed; otherwise the call returns with nothing enqueued, nothing removed and
  nothing logged, whatever the rest of the bucket holds.
\<close>

theorem notification_first_watch_only:
  assumes "\<not> eq_closing q" and "wet v = Some NODE_DATA_CHANGED"
    and "eq_watches q (h p) = Some (w # ws)"
  shows "add_watch_notification h wet q
           [(''path'', JStr p), (''watch-event'', JInt v), (''timestamp'', ts)] =
         (Inr (),
          if watch_type w = GET_DATA
          then (put q (WATCH_NOTIFICATION w (WatchedEvent NODE_DATA_CHANGED p ts)))
                 \<lparr>eq_watches := (eq_watches q)(h p \<mapsto> ws)\<rparr>
          else q)"
  using assms
  by (simp add: add_watch_notification_def getitem_def notify_watches_def del_index_def)

lemma queue_exists_then_data_watches:
  "queue_exists_then_data = EventQueue_init\<lparr>eq_watches :=
      [''cc8755609ad61864910f145119713de9'' \<mapsto> [watch_b, watch_a]]\<rparr>"
  by (simp add: queue_exists_then_data_def add_watch_def md5_sample_def EventQueue_init_def
      Let_def watch_a_def watch_b_def)

text \<open>
  An instance of C4: a GET_DATA watch registered on \<open>/x\<close> after an EXISTS watch gets no
  notification; the queue, the registry and the log are as before.
\<close>

theorem notification_first_watch_only_witness:
  "\<not> eq_closing queue_exists_then_data
   \<and> wet_sample 1 = Some NODE_DATA_CHANGED
   \<and> eq_watches queue_exists_then_data (md5_sample ''/x'') = Some (watch_b # [watch_a])
   \<and> watch_type watch_a = GET_DATA
   \<and> add_watch_notification md5_sample wet_sample queue_exists_then_data (data_changed 1) =
       (Inr (), queue_exists_then_data)"
proof -
  have c: "\<not> eq_closing queue_exists_then_data"
    by (simp add: queue_exists_then_data_watches EventQueue_init_def)
  have v: "wet_sample 1 = Some NODE_DATA_CHANGED" by (simp add: wet_sample_def)
  have b: "eq_watches queue_exists_then_data (md5_sample ''/x'') = Some (watch_b # [watch_a])"
    by (simp add: queue_exists_then_data_watches md5_sample_def)
  have t: "watch_type watch_a = GET_DATA" by (simp add: watch_a_def)
  have "add_watch_notification md5_sample wet_sample queue_exists_then_data (data_changed 1) =
       (Inr (), queue_exists_then_data)"
    using notification_first_watch_only [where q = queue_exists_then_data and wet = wet_sample
        and v = 1 and h = md5_sample and p = "''/x''" and w = watch_b and ws = "[watch_a]"
        and ts = "JInt 20", OF c v b]
    by (simp add: data_changed_def watch_b_def)
  with c v b t show ?thesis by blast
qed


lemma get_watches_registry:
  assumes "\<not> eq_closing q"
  shows "\<exists>ws q'. get_watches q ps ts = (Inr ws, q') \<and> \<not> eq_closing q'
     \<and> (\<forall>k. eq_watches q' k =
           (if k \<in> set ps \<and> (\<forall>w\<in>set (bucket (eq_watches q) k). timestamp w < ts)
            then None else eq_watches q k))"
proof -
  obtain ws reg where l: "get_watches_loop ps ts (eq_watches q) [] = (ws, reg)"
    by (cases "get_watches_loop ps ts (eq_watches q) []")
  have g: "get_watches q ps ts = (Inr ws, q\<lparr>eq_watches := reg\<rparr>)"
    using assms l by (simp add: get_watches_def)
  have r: "\<forall>k. reg k =
          (if k \<in> set ps \<and> (\<forall>w\<in>set (bucket (eq_watches q) k). timestamp w < ts)
           then None else eq_watches q k)"
    using get_watches_loop_registry [of ps ts "eq_watches q" "[]"] l by simp
  from g r assms show ?thesis by simp
qed

lemma sorter_iteration_direct:
  "eq_queue (s_queue s) = CLOUD_DIRECT_RESULT req_id result future # evs \<Longrightarrow>
   sorter_iteration h t_append t_check s =
     direct_result h (s\<lparr>s_queue := (s_queue s)\<lparr>eq_queue := evs\<rparr>\<rparr>) result future"
  by (simp add: sorter_iteration_def EventQueue_get_def)

lemma direct_result_node_registry:
  assumes "\<not> eq_closing (s_queue s)"
  shows "eq_watches (s_queue (snd (direct_result h s (ResNode node) future))) (h (node_path node)) =
     (if \<forall>w\<in>set (bucket (eq_watches (s_queue s)) (h (node_path node))). timestamp w < system_sum node
      then None else eq_watches (s_queue s) (h (node_path node)))"
proof -
  let ?k = "h (node_path node)"
  let ?ts = "system_sum node"
  from get_watches_registry [OF assms, of "[?k]" ?ts]
  obtain ws1 q1 where g1: "get_watches (s_queue s) [?k] ?ts = (Inr ws1, q1)"
    and o1: "\<not> eq_closing q1"
    and r1: "\<forall>k. eq_watches q1 k =
           (if k \<in> set [?k] \<and> (\<forall>w\<in>set (bucket (eq_watches (s_queue s)) k). timestamp w < ?ts)
            then None else eq_watches (s_queue s) k)"
    by blast
  from get_watches_registry [OF o1, of "epoch_paths (epoch_version node)" ?ts]
  obtain ws2 q2 where g2: "get_watches q1 (epoch_paths (epoch_version node)) ?ts = (Inr ws2, q2)"
    and r2: "\<forall>k. eq_watches q2 k =
           (if k \<in> set (epoch_paths (epoch_version node))
                \<and> (\<forall>w\<in>set (bucket (eq_watches q1) k). timestamp w < ?ts)
            then None else eq_watches q1 k)"
    by blast
  have res: "s_queue (snd (direct_result h s (ResNode node) future)) = q2"
    by (simp add: direct_result_def Let_def g1 g2 complete_future_def)
  define allold where
    "allold = (\<forall>w\<in>set (bucket (eq_watches (s_queue s)) ?k). timestamp w < ?ts)"
  from r1 have k1: "eq_watches q1 ?k = (if allold then None else eq_watches (s_queue s) ?k)"
    by (simp add: allold_def)
  from r2 have k2: "eq_watches q2 ?k =
      (if ?k \<in> set (epoch_paths (epoch_version node))
            \<and> (\<forall>w\<in>set (bucket (eq_watches q1) ?k). timestamp w < ?ts)
       then None else eq_watches q1 ?k)"
    by blast
  have "eq_watches q2 ?k = (if allold then None else eq_watches (s_queue s) ?k)"
  proof (cases allold)
    case True
    with k1 have "eq_watches q1 ?k = None" by simp
    with k2 have "eq_watches q2 ?k = None" by simp
    with True show ?thesis by simp
  next
    case False
    with k1 have same: "eq_watches q1 ?k = eq_watches (s_queue s) ?k" by simp
    then have "bucket (eq_watches q1) ?k = bucket (eq_watches (s_queue s)) ?k"
      by (simp add: bucket_def)
    with False have "\<not> (\<forall>w\<in>set (bucket (eq_watches q1) ?k). timestamp w < ?ts)"
      by (simp add: allold_def)
    with k2 have "eq_watches q2 ?k = eq_watches q1 ?k" by (simp only: simp_thms if_False)
    with same False show ?thesis by simp
  qed
  then show ?thesis unfolding res allold_def .
qed

text \<open>
  Claim C3, as amended. On a queue that is not closing, the sorter handling a direct
  result that is a node takes \<^verbatim>\<open>modified.system.sum\<close> as the observed timestamp, sends a
  \<open>NODE_DATA_CHANGED\<close> message for the node's path and that timestamp to every watch
  registered under the MD5 digest of the node's path that is older than the timestamp,
  in the bucket's order, and then completes the future with \<^verbatim>\<open>set_result\<close>; the bucket
  under that digest leaves the registry when all its watches are older and stays whole
  otherwise; a result that is an exception completes the future with
  \<^verbatim>\<open>set_exception\<close>, and \<^verbatim>\<open>None\<close> with \<^verbatim>\<open>set_result\<close>; an iteration of \<^verbatim>\<open>run\<close> that
  dequeues a direct result does exactly this.
\<close>

theorem direct_result_fires_own_watches:
  assumes "\<not> eq_closing (s_queue s)"
  shows "fst (direct_result h s (ResNode node) future) = None
     \<and> effects (snd (direct_result h s (ResNode node) future)) =
         effects s @
         map (\<lambda>w. GenerateMessage w
                (WatchedEvent NODE_DATA_CHANGED (node_path node) (JInt (system_sum node))))
           (filter (\<lambda>w. timestamp w < system_sum node)
              (bucket (eq_watches (s_queue s)) (h (node_path node)))) @
         [SetResult future (ResNode node)]
     \<and> eq_watches (s_queue (snd (direct_result h s (ResNode node) future))) (h (node_path node)) =
         (if \<forall>w\<in>set (bucket (eq_watches (s_queue s)) (h (node_path node))).
               timestamp w < system_sum node
          then None else eq_watches (s_queue s) (h (node_path node)))
     \<and> direct_result h s (ResException e) future =
         (None, s\<lparr>effects := effects s @ [SetException future e]\<rparr>)
     \<and> direct_result h s ResNone future =
         (None, s\<lparr>effects := effects s @ [SetResult future ResNone]\<rparr>)
     \<and> (eq_queue (s_queue s) = CLOUD_DIRECT_RESULT req_id result future # evs \<longrightarrow>
          sorter_iteration h t_append t_check s =
            direct_result h (s\<lparr>s_queue := (s_queue s)\<lparr>eq_queue := evs\<rparr>\<rparr>) result future)"
  using direct_result_node_effects [OF assms, of h node future]
    direct_result_node_registry [OF assms, of h node future]
    sorter_iteration_direct [of s req_id result future evs h t_append t_check]
  by (simp add: direct_result_def complete_future_def)

lemma queue_partial_watches:
  "queue_partial = EventQueue_init\<lparr>eq_watches :=
      [''cc8755609ad61864910f145119713de9'' \<mapsto> [watch_a, watch_b]]\<rparr>"
  by (simp add: queue_partial_def add_watch_def md5_sample_def EventQueue_init_def
      Let_def watch_a_def watch_b_def)

text \<open>
  An instance of C3 as amended: of the two watches on \<open>/x\<close> only the older one gets a
  message, and both stay registered.
\<close>

theorem direct_result_fires_own_watches_witness:
  "\<not> eq_closing (s_queue (Sorter_init queue_partial))
   \<and> effects (snd (direct_result md5_sample (Sorter_init queue_partial) (ResNode node_x_10) (Future 7))) =
       [GenerateMessage watch_a (WatchedEvent NODE_DATA_CHANGED ''/x'' (JInt 10)),
        SetResult (Future 7) (ResNode node_x_10)]
   \<and> eq_watches (s_queue (snd (direct_result md5_sample (Sorter_init queue_partial)
         (ResNode node_x_10) (Future 7)))) (md5_sample ''/x'') = Some [watch_a, watch_b]"
proof -
  have c: "\<not> eq_closing (s_queue (Sorter_init queue_partial))"
    by (simp add: Sorter_init_def queue_partial_watches EventQueue_init_def)
  have b: "bucket (eq_watches (s_queue (Sorter_init queue_partial))) (md5_sample ''/x'') =
      [watch_a, watch_b]"
    by (simp add: Sorter_init_def queue_partial_watches md5_sample_def bucket_def)
  have r: "eq_watches (s_queue (Sorter_init queue_partial)) (md5_sample ''/x'') =
      Some [watch_a, watch_b]"
    by (simp add: Sorter_init_def queue_partial_watches md5_sample_def)
  note t = direct_result_fires_own_watches [OF c, of md5_sample node_x_10 "Future 7"
      AssertionError 0 ResNone "[]" 0 0]
  have n: "node_path node_x_10 = ''/x''" "system_sum node_x_10 = 10"
    by (simp_all add: node_x_10_def)
  from t have e0: "effects (snd (direct_result md5_sample (Sorter_init queue_partial)
        (ResNode node_x_10) (Future 7))) =
         effects (Sorter_init queue_partial) @
         map (\<lambda>w. GenerateMessage w
                (WatchedEvent NODE_DATA_CHANGED (node_path node_x_10) (JInt (system_sum node_x_10))))
           (filter (\<lambda>w. timestamp w < system_sum node_x_10)
              (bucket (eq_watches (s_queue (Sorter_init queue_partial)))
                 (md5_sample (node_path node_x_10)))) @
         [SetResult (Future 7) (ResNode node_x_10)]"
    by blast
  have e: "effects (snd (direct_result md5_sample (Sorter_init queue_partial)
        (ResNode node_x_10) (Future 7))) =
       [GenerateMessage watch_a (WatchedEvent NODE_DATA_CHANGED ''/x'' (JInt 10)),
        SetResult (Future 7) (ResNode node_x_10)]"
    unfolding e0 n b by (simp add: Sorter_init_def watch_a_def watch_b_def)
  from t have w0: "eq_watches (s_queue (snd (direct_result md5_sample (Sorter_init queue_partial)
         (ResNode node_x_10) (Future 7)))) (md5_sample (node_path node_x_10)) =
         (if \<forall>w\<in>set (bucket (eq_watches (s_queue (Sorter_init queue_partial)))
                 (md5_sample (node_path node_x_10))).
               timestamp w < system_sum node_x_10
          then None
          else eq_watches (s_queue (Sorter_init queue_partial)) (md5_sample (node_path node_x_10)))"
    by blast
  have w: "eq_watches (s_queue (snd (direct_result md5_sample (Sorter_init queue_partial)
         (ResNode node_x_10) (Future 7)))) (md5_sample ''/x'') = Some [watch_a, watch_b]"
    using w0 unfolding n b r by (simp add: watch_a_def watch_b_def)
  from c e w show ?thesis by blast
qed

text \<open>
  C3 as stated fails. The watch on \<open>/y\<close>, older than the read and named by the node's
  epoch, gets no message and is still registered afterwards; and the watch on \<open>/x\<close> that
  got its message is still registered when its bucket holds a younger watch as well.
\<close>

theorem direct_result_counterexample:
  "effects (snd (direct_result md5_sample (Sorter_init queue_xy) (ResNode node_x) (Future 7))) =
       [GenerateMessage watch_a (WatchedEvent NODE_DATA_CHANGED ''/x'' (JInt 20)),
        SetResult (Future 7) (ResNode node_x)]
   \<and> eq_watches (s_queue (snd (direct_result md5_sample (Sorter_init queue_xy)
          (ResNode node_x) (Future 7)))) (md5_sample ''/y'') = Some [watch_c]
   \<and> eq_watches queue_xy (md5_sample ''/y'') = Some [watch_c]
   \<and> timestamp watch_c < system_sum node_x
   \<and> epoch_paths (epoch_version node_x) = [''/y'']
   \<and> effects (snd (direct_result md5_sample (Sorter_init queue_partial)
          (ResNode node_x_10) (Future 7))) =
       [GenerateMessage watch_a (WatchedEvent NODE_DATA_CHANGED ''/x'' (JInt 10)),
        SetResult (Future 7) (ResNode node_x_10)]
   \<and> eq_watches (s_queue (snd (direct_result md5_sample (Sorter_init queue_partial)
          (ResNode node_x_10) (Future 7)))) (md5_sample ''/x'') = Some [watch_a, watch_b]"
  by (simp add: direct_result_def queue_xy_watches queue_partial_watches Sorter_init_def
      get_watches_def EventQueue_init_def md5_sample_def node_x_def node_x_10_def
      epoch_paths_def bucket_def watch_a_def watch_b_def watch_c_def complete_future_def Let_def)

end
